theory Spec2Isabelle
  imports Complex_Main "HOL-Library.Word"
begin

section \<open>Strings and bytes\<close>

text \<open>
  A Python \<^verbatim>\<open>str\<close> is a sequence of code points. The model works with code points
  below 256, one \<^typ>\<open>char\<close> each, so a \<^typ>\<open>string\<close> is a Python string over
  Latin-1. \<^verbatim>\<open>bytes\<close> are lists of 8-bit words.
\<close>

type_synonym byte = "8 word"
type_synonym bytes = "byte list"

text \<open>
  \<^verbatim>\<open>str.encode()\<close> is UTF-8: a code point below 128 is one byte, a code point
  from 128 to 255 is the two bytes \<^verbatim>\<open>0xC0 + c div 64\<close>, \<^verbatim>\<open>0x80 + c mod 64\<close>.
\<close>

definition encode_char :: "char \<Rightarrow> bytes" where
  "encode_char c =
     (let n = of_char c :: nat
      in if n < 128 then [of_nat n] else [of_nat (192 + n div 64), of_nat (128 + n mod 64)])"

definition encode :: "string \<Rightarrow> bytes" where
  "encode s = concat (map encode_char s)"

text \<open>
  \<^verbatim>\<open>str.lower()\<close> on code points below 256: the letters A to Z and the Latin-1 capitals
  U+00C0 to U+00DE (the multiplication sign U+00D7 apart) move up by 32; every other
  code point stays.
\<close>

definition lower_char :: "char \<Rightarrow> char" where
  "lower_char c =
     (let n = of_char c :: nat
      in if 65 \<le> n \<and> n \<le> 90 then char_of (n + 32)
         else if 192 \<le> n \<and> n \<le> 222 \<and> n \<noteq> 215 then char_of (n + 32)
         else c)"

definition lower :: "string \<Rightarrow> string" where
  "lower s = map lower_char s"

section \<open>SHA-256 as \<^verbatim>\<open>hashlib.sha256\<close> computes it (FIPS 180-4)\<close>

text \<open>
  32-bit words are natural numbers below \<open>2 ^ 32\<close>, with the wrap-around of every
  addition written out (\<open>w32\<close>).
\<close>

unbundle bit_operations_syntax

definition w32 :: "nat \<Rightarrow> nat" where
  "w32 x = x mod 4294967296"

definition rotr :: "nat \<Rightarrow> nat \<Rightarrow> nat" where
  "rotr n x = x div 2 ^ n + (x mod 2 ^ n) * 2 ^ (32 - n)"

definition shr :: "nat \<Rightarrow> nat \<Rightarrow> nat" where
  "shr n x = x div 2 ^ n"

definition K256 :: "nat list" where
  "K256 =
    [1116352408, 1899447441, 3049323471, 3921009573, 961987163, 1508970993,
     2453635748, 2870763221, 3624381080, 310598401, 607225278, 1426881987,
     1925078388, 2162078206, 2614888103, 3248222580, 3835390401, 4022224774,
     264347078, 604807628, 770255983, 1249150122, 1555081692, 1996064986,
     2554220882, 2821834349, 2952996808, 3210313671, 3336571891, 3584528711,
     113926993, 338241895, 666307205, 773529912, 1294757372, 1396182291,
     1695183700, 1986661051, 2177026350, 2456956037, 2730485921, 2820302411,
     3259730800, 3345764771, 3516065817, 3600352804, 4094571909, 275423344,
     430227734, 506948616, 659060556, 883997877, 958139571, 1322822218,
     1537002063, 1747873779, 1955562222, 2024104815, 2227730452, 2361852424,
     2428436474, 2756734187, 3204031479, 3329325298]"

definition H256 :: "nat list" where
  "H256 = [1779033703, 3144134277, 1013904242, 2773480762,
           1359893119, 2600822924, 528734635, 1541459225]"

definition Ch :: "nat \<Rightarrow> nat \<Rightarrow> nat \<Rightarrow> nat" where
  "Ch x y z = (x AND y) XOR ((4294967295 - x) AND z)"

definition Maj :: "nat \<Rightarrow> nat \<Rightarrow> nat \<Rightarrow> nat" where
  "Maj x y z = (x AND y) XOR (x AND z) XOR (y AND z)"

definition Sigma0 :: "nat \<Rightarrow> nat" where
  "Sigma0 x = rotr 2 x XOR rotr 13 x XOR rotr 22 x"

definition Sigma1 :: "nat \<Rightarrow> nat" where
  "Sigma1 x = rotr 6 x XOR rotr 11 x XOR rotr 25 x"

definition sigma0 :: "nat \<Rightarrow> nat" where
  "sigma0 x = rotr 7 x XOR rotr 18 x XOR shr 3 x"

definition sigma1 :: "nat \<Rightarrow> nat" where
  "sigma1 x = rotr 17 x XOR rotr 19 x XOR shr 10 x"

definition T1 :: "nat \<Rightarrow> nat \<Rightarrow> nat \<Rightarrow> nat \<Rightarrow> nat \<Rightarrow> nat \<Rightarrow> nat" where
  "T1 k w0 e f g h = w32 (h + Sigma1 e + Ch e f g + k + w0)"

definition T2 :: "nat \<Rightarrow> nat \<Rightarrow> nat \<Rightarrow> nat" where
  "T2 a b c = w32 (Sigma0 a + Maj a b c)"

text \<open>
  One round on the working variables \<open>[a, b, c, d, e, f, g, h]\<close>, and the message
  schedule as a window of the sixteen words \<open>W\<^sub>t .. W\<^sub>t\<^sub>+\<^sub>1\<^sub>5\<close> that slides by one.
\<close>

definition next_state :: "nat list \<Rightarrow> nat \<Rightarrow> nat \<Rightarrow> nat list" where
  "next_state s t1 t2 =
     [w32 (t1 + t2), s ! 0, s ! 1, s ! 2, w32 (s ! 3 + t1), s ! 4, s ! 5, s ! 6]"

definition next_w :: "nat list \<Rightarrow> nat list" where
  "next_w w = tl w @ [w32 (sigma1 (w ! 14) + w ! 9 + sigma0 (w ! 1) + w ! 0)]"

fun round_step :: "nat \<Rightarrow> nat list \<times> nat list \<Rightarrow> nat list \<times> nat list" where
  "round_step k (w, s) =
     (next_w w,
      next_state s (T1 k (w ! 0) (s ! 4) (s ! 5) (s ! 6) (s ! 7)) (T2 (s ! 0) (s ! 1) (s ! 2)))"

fun run_rounds :: "nat list \<Rightarrow> nat list \<times> nat list \<Rightarrow> nat list \<times> nat list" where
  "run_rounds [] ws = ws"
| "run_rounds (k # ks) ws = run_rounds ks (round_step k ws)"

fun be32 :: "bytes \<Rightarrow> nat list" where
  "be32 (b0 # b1 # b2 # b3 # bs) =
     (16777216 * unat b0 + 65536 * unat b1 + 256 * unat b2 + unat b3) # be32 bs"
| "be32 bs = []"

fun add_words :: "nat list \<Rightarrow> nat list \<Rightarrow> nat list" where
  "add_words (x # xs) (y # ys) = w32 (x + y) # add_words xs ys"
| "add_words xs ys = []"

definition compress :: "nat list \<Rightarrow> bytes \<Rightarrow> nat list" where
  "compress s block = add_words s (snd (run_rounds K256 (be32 block, s)))"

function hash_blocks :: "nat list \<Rightarrow> bytes \<Rightarrow> nat list" where
  "hash_blocks s bs =
     (if length bs < 64 then s else hash_blocks (compress s (take 64 bs)) (drop 64 bs))"
  by pat_completeness auto
termination
  by (relation "measure (\<lambda>(s, bs). length bs)") auto

declare hash_blocks.simps [simp del]

fun be_bytes :: "nat \<Rightarrow> nat \<Rightarrow> bytes" where
  "be_bytes 0 v = []"
| "be_bytes (Suc n) v = be_bytes n (v div 256) @ [of_nat (v mod 256)]"

definition pad :: "bytes \<Rightarrow> bytes" where
  "pad m = m @ [0x80] @ replicate ((119 - length m mod 64) mod 64) 0
             @ be_bytes 8 ((8 * length m) mod 2 ^ 64)"

definition sha256 :: "bytes \<Rightarrow> bytes" where
  "sha256 m = concat (map (be_bytes 4) (hash_blocks H256 (pad m)))"

section \<open>MatchmakingClient: \<^verbatim>\<open>hash_password\<close>\<close>

text \<open>
  A \<^verbatim>\<open>hashlib\<close> object collects what \<^verbatim>\<open>update\<close> feeds it; \<^verbatim>\<open>digest\<close> hashes
  everything fed so far.
\<close>

record hash_object =
  fed :: bytes

definition sha256_new :: hash_object where
  "sha256_new = \<lparr>fed = []\<rparr>"

definition update :: "hash_object \<Rightarrow> bytes \<Rightarrow> hash_object" where
  "update m data = m\<lparr>fed := fed m @ data\<rparr>"

definition digest :: "hash_object \<Rightarrow> bytes" where
  "digest m = sha256 (fed m)"

definition hash_password :: "string \<Rightarrow> string \<Rightarrow> bytes" where
  "hash_password username password =
     (let m = sha256_new;
          m = update m (encode password);
          m = update m (encode username)
      in digest m)"

section \<open>Exceptions and blocking calls\<close>

datatype error =
    OSError | ValueError | KeyError | IndexError | AttributeError
  | BrokenPipeError | ConnectionError | UnpicklingError

text \<open>
  A thread stops early in one of two ways: an exception is raised and not caught, or it
  enters a blocking call that cannot return in the state it sees.
\<close>

datatype blocking_call = SemaphoreAcquire | QueueGet | ReadyWait

datatype stop = Raised error | Blocked blocking_call

section \<open>RankingDatabase\<close>

record user_row =
  row_password_hash :: bytes
  row_ranking :: real
  row_logged_in :: bool

type_synonym ranking_database = "string \<rightharpoonup> user_row"

datatype LoginResult = LoginSuccess | LoginFail | LoginDuplicate | NoUser

definition default_ranking :: real where
  "default_ranking = 1000"

text \<open>
  Modelled from the spec: the class \<^verbatim>\<open>RankingDatabase\<close> (module
  \<^verbatim>\<open>matchmaking/RankingDatabase.py\<close>) is not among the sources. Section 4.2: \<^verbatim>\<open>set\<close>
  inserts a new user with the default ranking, logged out, and does nothing when the user
  exists; \<^verbatim>\<open>login\<close> is a check-and-set of the logged-in flag with the four results;
  \<^verbatim>\<open>logoff\<close> clears the flag; \<^verbatim>\<open>get_multi\<close> is a read-only fetch of
  \<open>(name, password_hash, ranking)\<close>. The spec leaves open which of a wrong password and
  a duplicate login is reported when both hold; the password is checked first here.
\<close>

definition set_user :: "string \<Rightarrow> bytes \<Rightarrow> ranking_database \<Rightarrow> ranking_database" where
  "set_user username password_hash db =
     (case db username of
        None \<Rightarrow> db(username \<mapsto>
          \<lparr>row_password_hash = password_hash, row_ranking = default_ranking,
           row_logged_in = False\<rparr>)
      | Some row \<Rightarrow> db)"

definition login :: "string \<Rightarrow> bytes \<Rightarrow> ranking_database \<Rightarrow> LoginResult \<times> ranking_database" where
  "login username password_hash db =
     (case db username of
        None \<Rightarrow> (NoUser, db)
      | Some row \<Rightarrow>
          if row_password_hash row \<noteq> password_hash then (LoginFail, db)
          else if row_logged_in row then (LoginDuplicate, db)
          else (LoginSuccess, db(username \<mapsto> row\<lparr>row_logged_in := True\<rparr>)))"

definition logoff :: "string \<Rightarrow> ranking_database \<Rightarrow> ranking_database" where
  "logoff username db =
     (case db username of
        None \<Rightarrow> db
      | Some row \<Rightarrow> db(username \<mapsto> row\<lparr>row_logged_in := False\<rparr>))"

definition get_multi :: "string list \<Rightarrow> ranking_database \<Rightarrow> (string \<times> bytes \<times> real) list" where
  "get_multi usernames db =
     concat (map (\<lambda>u. case db u of
                          None \<Rightarrow> []
                        | Some row \<Rightarrow> [(u, row_password_hash row, row_ranking row)]) usernames)"

section \<open>Messages of the matchmaking RPC\<close>

record QuickMatchRequest =
  username :: string
  password :: bytes

record QuickMatchReply =
  reply_username :: string
  server :: string
  auth_key :: string
  ranking :: real
  response :: string

type_synonym identity = bytes

section \<open>MatchmakingClient: \<^verbatim>\<open>request_game\<close>\<close>

record GameResponse =
  host :: string
  game_port :: int
  game_username :: string
  token :: string
  game_ranking :: real

text \<open>
  The request \<^verbatim>\<open>request_game\<close> sends: the username is lowercased first, and the
  lowercased name salts the hash.
\<close>

definition request_game_request :: "string \<Rightarrow> string \<Rightarrow> QuickMatchRequest" where
  "request_game_request username0 password0 =
     (let username1 = lower username0;
          hashed_password = hash_password username1 password0
      in \<lparr>username = username1, password = hashed_password\<rparr>)"

text \<open>
  The RPC \<^verbatim>\<open>GetMatch\<close> and the parsing of \<^verbatim>\<open>"host:port"\<close>
  (\<^verbatim>\<open>str.split\<close> and \<^verbatim>\<open>int\<close>, which raise \<^verbatim>\<open>ValueError\<close>) are parameters.
\<close>

definition request_game ::
  "(QuickMatchRequest \<Rightarrow> QuickMatchReply) \<Rightarrow> (string \<Rightarrow> error + string \<times> int)
     \<Rightarrow> string \<Rightarrow> string \<Rightarrow> error + GameResponse" where
  "request_game GetMatch split_host_port username0 password0 =
     (let request = request_game_request username0 password0;
          reply = GetMatch request
      in if server reply = ''FAIL'' then Inl ConnectionError
         else case split_host_port (server reply) of
                Inl e \<Rightarrow> Inl e
              | Inr (h, p) \<Rightarrow>
                  Inr \<lparr>host = h, game_port = p, game_username = username request,
                       token = auth_key reply, game_ranking = ranking reply\<rparr>)"

section \<open>MatchmakingServer: shared objects, janitor, matchmaker\<close>

record match_server_args =
  tick_rate :: int
  port :: int
  realtime :: bool
  observations_only :: bool
  config :: string

definition match_server_args_factory ::
  "int \<Rightarrow> bool \<Rightarrow> bool \<Rightarrow> string \<Rightarrow> int \<Rightarrow> match_server_args" where
  "match_server_args_factory tick_rate0 realtime0 observations_only0 env_config_string port0 =
     \<lparr>tick_rate = tick_rate0, port = port0, realtime = realtime0,
      observations_only = observations_only0, config = env_config_string\<rparr>"

text \<open>
  The objects the matchmaker thread and every janitor thread hold by reference: the
  semaphore \<^verbatim>\<open>match_limit\<close> (its counter), the \<^verbatim>\<open>Queue\<close> of free ports (\<^verbatim>\<open>put\<close>
  appends at the end, \<^verbatim>\<open>get\<close> takes the head) and the database.
\<close>

record shared =
  match_limit :: nat
  ports_to_use :: "int list"
  database :: ranking_database

record MatchProcessJanitor =
  janitor_args :: match_server_args
  player_list :: "string list"
  whitelist :: "string list"

text \<open>
  \<^verbatim>\<open>MatchProcessJanitor.run\<close>. The first argument is the outcome of lines 88 to 92
  (building the observation type and the \<^verbatim>\<open>Node\<close>, and \<^verbatim>\<open>app.start\<close>, which blocks
  until the match server has ended): \<open>None\<close> when they return, \<open>Some e\<close> when one of
  them raises \<open>e\<close>. The method has no exception handler, so an exception leaves it at
  once. The result is the exception that ends the thread, if any, and the shared objects.
\<close>

definition MatchProcessJanitor_run ::
  "error option \<Rightarrow> MatchProcessJanitor \<Rightarrow> 'a shared_scheme \<Rightarrow> error option \<times> 'a shared_scheme" where
  "MatchProcessJanitor_run app_start self sh =
     (let port0 = port (janitor_args self)
      in case app_start of
           Some e \<Rightarrow> (Some e, sh)
         | None \<Rightarrow>
             (let sh = sh\<lparr>ports_to_use := ports_to_use sh @ [port0]\<rparr>;
                  sh = sh\<lparr>database := fold logoff (player_list self) (database sh)\<rparr>;
                  sh = sh\<lparr>match_limit := match_limit sh + 1\<rparr>
              in (None, sh)))"

text \<open>
  The matchmaker thread: its attributes, the deque \<^verbatim>\<open>match_requests\<close> of its
  \<^verbatim>\<open>run\<close> (the right end is the end of the list: \<^verbatim>\<open>append\<close> adds there and
  \<^verbatim>\<open>pop\<close> removes there), the janitor threads it has started, and the random bytes
  the operating system will hand to \<^verbatim>\<open>secrets\<close>, as a stream.
\<close>

record MatchmakingThread = shared +
  players_per_game :: int
  hostname :: string
  create_match_server_args :: "int \<Rightarrow> match_server_args"
  match_requests :: "(identity \<times> QuickMatchRequest \<times> string) list"
  janitors :: "MatchProcessJanitor list"
  entropy :: "nat \<Rightarrow> byte"

subsection \<open>\<^verbatim>\<open>MatchmakingThread.__init__\<close>\<close>

text \<open>Lines 136 to 142: \<^verbatim>\<open>range(starting_port, max_port)\<close>, probed in order.\<close>

definition probe_ports :: "(int \<Rightarrow> bool) \<Rightarrow> int \<Rightarrow> int \<Rightarrow> int list" where
  "probe_ports is_port_in_use starting_port max_simultaneous_games =
     (let max_port = starting_port + 2 * max_simultaneous_games
      in filter (\<lambda>port0. \<not> is_port_in_use port0) [starting_port .. max_port - 1])"

text \<open>
  The constructor. \<^verbatim>\<open>is_port_in_use\<close> (module \<^verbatim>\<open>util\<close>), the environment's
  \<^verbatim>\<open>min_players\<close>, the opened database and the random source are parameters; the
  ZeroMQ socket is left out. \<^verbatim>\<open>Semaphore(n)\<close> raises \<^verbatim>\<open>ValueError\<close> when \<open>n < 0\<close>.
\<close>

definition MatchmakingThread_init ::
  "(int \<Rightarrow> bool) \<Rightarrow> ranking_database \<Rightarrow> (nat \<Rightarrow> byte) \<Rightarrow> int \<Rightarrow> string \<Rightarrow> int \<Rightarrow> int
     \<Rightarrow> int \<Rightarrow> bool \<Rightarrow> bool \<Rightarrow> string \<Rightarrow> error + MatchmakingThread" where
  "MatchmakingThread_init is_port_in_use db rnd starting_port hostname0 max_simultaneous_games
       min_players tick_rate0 realtime0 observations_only0 env_config_string =
     (if max_simultaneous_games < 0 then Inl ValueError
      else
        let ports = probe_ports is_port_in_use starting_port max_simultaneous_games
        in if int (length ports) < max_simultaneous_games then Inl OSError
           else Inr \<lparr>match_limit = nat max_simultaneous_games,
                     ports_to_use = ports,
                     database = db,
                     players_per_game = min_players,
                     hostname = hostname0,
                     create_match_server_args =
                       match_server_args_factory tick_rate0 realtime0 observations_only0
                         env_config_string,
                     match_requests = [],
                     janitors = [],
                     entropy = rnd\<rparr>)"

subsection \<open>\<^verbatim>\<open>secrets.token_hex\<close>\<close>

definition hex_digit :: "nat \<Rightarrow> char" where
  "hex_digit n = ''0123456789abcdef'' ! n"

definition hex_byte :: "byte \<Rightarrow> string" where
  "hex_byte b = [hex_digit (unat b div 16), hex_digit (unat b mod 16)]"

text \<open>\<open>token_hex n\<close> reads the next \<open>n\<close> random bytes and prints two digits for each.\<close>

definition token_hex :: "nat \<Rightarrow> (nat \<Rightarrow> byte) \<Rightarrow> string \<times> (nat \<Rightarrow> byte)" where
  "token_hex nbytes rnd =
     (concat (map (\<lambda>i. hex_byte (rnd i)) [0..<nbytes]), (\<lambda>i. rnd (i + nbytes)))"

subsection \<open>Printing a port\<close>

definition digit_char :: "nat \<Rightarrow> char" where
  "digit_char n = ''0123456789'' ! n"

fun str_nat :: "nat \<Rightarrow> string" where
  "str_nat n = (if n < 10 then [digit_char n] else str_nat (n div 10) @ [digit_char (n mod 10)])"

declare str_nat.simps [simp del]

definition str_int :: "int \<Rightarrow> string" where
  "str_int i = (if i < 0 then CHR ''-'' # str_nat (nat (- i)) else str_nat (nat i))"

subsection \<open>\<^verbatim>\<open>MatchmakingThread.run\<close>\<close>

text \<open>
  Line 184, \<^verbatim>\<open>[match_requests.pop() for _ in range(n)]\<close>: \<open>n\<close> pops from the right
  end, collected in the order they are made. \<^verbatim>\<open>pop\<close> on an empty deque raises
  \<^verbatim>\<open>IndexError\<close>.
\<close>

fun pop_players :: "nat \<Rightarrow> 'a list \<Rightarrow> error + 'a list \<times> 'a list" where
  "pop_players 0 dq = Inr ([], dq)"
| "pop_players (Suc n) dq =
     (if dq = [] then Inl IndexError
      else case pop_players n (butlast dq) of
             Inl e \<Rightarrow> Inl e
           | Inr (popped, dq') \<Rightarrow> Inr (last dq # popped, dq'))"

text \<open>Lines 199 and 200: the dictionary from names to rankings; a later row wins.\<close>

definition database_entries :: "string list \<Rightarrow> ranking_database \<Rightarrow> string \<rightharpoonup> real" where
  "database_entries usernames db =
     map_of (rev (map (\<lambda>(name, _, ranking0). (name, ranking0)) (get_multi usernames db)))"

text \<open>Lines 203 to 210: one reply for each member of the cohort, in the cohort's order.\<close>

fun send_replies ::
  "string \<Rightarrow> int \<Rightarrow> (string \<rightharpoonup> real) \<Rightarrow> (identity \<times> QuickMatchRequest \<times> string) list
     \<Rightarrow> error + (identity \<times> QuickMatchReply) list" where
  "send_replies hostname0 match_port entries [] = Inr []"
| "send_replies hostname0 match_port entries ((identity0, request, auth_key0) # new_players) =
     (case entries (username request) of
        None \<Rightarrow> Inl KeyError
      | Some ranking0 \<Rightarrow>
          (case send_replies hostname0 match_port entries new_players of
             Inl e \<Rightarrow> Inl e
           | Inr sent \<Rightarrow>
               Inr ((identity0,
                     \<lparr>reply_username = username request,
                      server = hostname0 @ '':'' @ str_int match_port,
                      auth_key = auth_key0,
                      ranking = ranking0,
                      response = []\<rparr>) # sent)))"

text \<open>
  Lines 183 to 210, entered when the deque holds at least \<^verbatim>\<open>players_per_game\<close>
  requests. \<^verbatim>\<open>acquire\<close> blocks while the semaphore's counter is 0 and \<^verbatim>\<open>get\<close>
  blocks while the queue is empty; \<^verbatim>\<open>ready.wait()\<close> blocks until the match server of
  the started janitor signals that it is ready, which \<open>server_ready\<close> tells.
\<close>

definition start_match ::
  "(MatchProcessJanitor \<Rightarrow> bool) \<Rightarrow> MatchmakingThread
     \<Rightarrow> stop + MatchmakingThread \<times> (identity \<times> QuickMatchReply) list" where
  "start_match server_ready self =
     (if match_limit self = 0 then Inl (Blocked SemaphoreAcquire)
      else
        let self = self\<lparr>match_limit := match_limit self - 1\<rparr>
        in case pop_players (nat (players_per_game self)) (match_requests self) of
             Inl e \<Rightarrow> Inl (Raised e)
           | Inr (new_players, remaining) \<Rightarrow>
               (let self = self\<lparr>match_requests := remaining\<rparr>;
                    whitelist0 = map (\<lambda>player. snd (snd player)) new_players;
                    usernames = map (\<lambda>player. username (fst (snd player))) new_players
                in case ports_to_use self of
                     [] \<Rightarrow> Inl (Blocked QueueGet)
                   | match_port # free \<Rightarrow>
                       (let self = self\<lparr>ports_to_use := free\<rparr>;
                            match_janitor =
                              \<lparr>janitor_args = create_match_server_args self match_port,
                               player_list = usernames,
                               whitelist = whitelist0\<rparr>;
                            self = self\<lparr>janitors := janitors self @ [match_janitor]\<rparr>;
                            entries = database_entries usernames (database self)
                        in if \<not> server_ready match_janitor then Inl (Blocked ReadyWait)
                           else case send_replies (hostname self) match_port entries new_players of
                                  Inl e \<Rightarrow> Inl (Raised e)
                                | Inr sent \<Rightarrow> Inr (self, sent))))"

definition fail_reply :: "string \<Rightarrow> string \<Rightarrow> QuickMatchReply" where
  "fail_reply username0 reason =
     \<lparr>reply_username = username0, server = ''FAIL'', auth_key = ''FAIL'', ranking = 0,
      response = reason\<rparr>"

text \<open>
  Lines 178 to 210: the request joins the deque with a new token, and a match starts
  when the deque is long enough.
\<close>

definition enqueue ::
  "(MatchProcessJanitor \<Rightarrow> bool) \<Rightarrow> MatchmakingThread \<Rightarrow> identity \<Rightarrow> QuickMatchRequest
     \<Rightarrow> stop + MatchmakingThread \<times> (identity \<times> QuickMatchReply) list" where
  "enqueue server_ready self identity0 request =
     (let (token0, rnd) = token_hex 32 (entropy self);
          self = self\<lparr>entropy := rnd,
                       match_requests := match_requests self @ [(identity0, request, token0)]\<rparr>
      in if int (length (match_requests self)) \<ge> players_per_game self
         then start_match server_ready self
         else Inr (self, []))"

text \<open>
  One turn of the \<^verbatim>\<open>while True\<close> loop, for the request \<^verbatim>\<open>recv_multipart\<close> returned.
  The result is the thread's state when the turn ends and the messages it sent, or how
  the thread stopped.
\<close>

definition run_iteration ::
  "(MatchProcessJanitor \<Rightarrow> bool) \<Rightarrow> MatchmakingThread \<Rightarrow> identity \<times> QuickMatchRequest
     \<Rightarrow> stop + MatchmakingThread \<times> (identity \<times> QuickMatchReply) list" where
  "run_iteration server_ready self received =
     (let identity0 = fst received;
          request = snd received;
          username0 = username request;
          password0 = password request;
          (login_result, db) = login username0 password0 (database self);
          self = self\<lparr>database := db\<rparr>
      in if login_result = NoUser then
           (let db = set_user username0 password0 (database self);
                (_, db) = login username0 password0 db
            in enqueue server_ready (self\<lparr>database := db\<rparr>) identity0 request)
         else if login_result = LoginDuplicate then
           Inr (self, [(identity0,
                  fail_reply username0 ''Failed to login: Cannot login twice at the same time.'')])
         else if login_result = LoginFail then
           Inr (self, [(identity0, fail_reply username0 ''Failed to login: Wrong password.'')])
         else enqueue server_ready self identity0 request)"

text \<open>The loop over the requests received so far, in order.\<close>

fun run ::
  "(MatchProcessJanitor \<Rightarrow> bool) \<Rightarrow> MatchmakingThread \<Rightarrow> (identity \<times> QuickMatchRequest) list
     \<Rightarrow> stop + MatchmakingThread \<times> (identity \<times> QuickMatchReply) list" where
  "run server_ready self [] = Inr (self, [])"
| "run server_ready self (received # later) =
     (case run_iteration server_ready self received of
        Inl e \<Rightarrow> Inl e
      | Inr (self', sent) \<Rightarrow>
          (case run server_ready self' later of
             Inl e \<Rightarrow> Inl e
           | Inr (self'', sent') \<Rightarrow> Inr (self'', sent @ sent')))"

section \<open>client\_network\_env: the match client adapter\<close>

text \<open>
  The records of the shared dataframe (module \<^verbatim>\<open>data_model\<close>, whose fields the client
  reads and writes). A player has one more attribute for each observation dimension,
  read by \<^verbatim>\<open>getattr(player, dimension_name)\<close>: the field \<open>dimension\<close>.
\<close>

record 'obs Player =
  pid :: nat
  name :: string
  number :: int
  turn :: bool
  action :: string
  ready_for_action_to_be_taken :: bool
  reward_from_last_turn :: real
  acknowledges_game_over :: bool
  dimension :: "string \<Rightarrow> 'obs"

record ServerState =
  env_class_name :: string
  env_dimensions :: "string list"
  terminal :: bool
  winners :: bytes
  serialized_state :: bytes

text \<open>
  What one \<^verbatim>\<open>dataframe.pull(); dataframe.checkout()\<close> brings: the client's own player
  record as \<^verbatim>\<open>read_one(player_class, player.pid)\<close> then returns it (\<open>None\<close> when the
  record is gone) and the records \<^verbatim>\<open>read_all(ServerState)\<close> returns.
\<close>

record 'obs snapshot =
  pulled_player :: "'obs Player option"
  pulled_server_states :: "ServerState list"

text \<open>
  The state of \<^verbatim>\<open>client_app\<close> inside its command loop: the variable \<^verbatim>\<open>player\<close>,
  the checked-out \<^verbatim>\<open>ServerState\<close> records, the player records it has committed and
  pushed (oldest first, one entry for each \<^verbatim>\<open>commit(); push()\<close>), whether it has
  deleted its player record, whether it has closed its end \<^verbatim>\<open>remote\<close> of the pipe, and
  whether it is still in the loop.
\<close>

record 'obs client =
  player :: "'obs Player"
  server_states :: "ServerState list"
  pushed :: "'obs Player list"
  player_deleted :: bool
  remote_closed :: bool
  running :: bool

definition game_is_terminal :: "'obs client \<Rightarrow> error + bool" where
  "game_is_terminal dataframe =
     (case server_states dataframe of
        [] \<Rightarrow> Inl IndexError
      | state # _ \<Rightarrow> Inr (terminal state))"

text \<open>
  Lines 79 to 83. The list holds what the coming pulls will bring, in order; the loop
  takes one for each turn. \<open>None\<close>: the list ran out while the loop was still waiting.
  When the record is gone, \<^verbatim>\<open>player\<close> is \<^verbatim>\<open>None\<close> and the loop's test raises
  \<^verbatim>\<open>AttributeError\<close>.
\<close>

fun wait_for_turn ::
  "'obs client \<Rightarrow> 'obs snapshot list \<Rightarrow> (error + 'obs client \<times> 'obs snapshot list) option" where
  "wait_for_turn c [] =
     (if \<not> turn (player c) \<or> ready_for_action_to_be_taken (player c) then None
      else Some (Inr (c, [])))"
| "wait_for_turn c (s # pulls) =
     (if \<not> turn (player c) \<or> ready_for_action_to_be_taken (player c) then
        (case pulled_player s of
           None \<Rightarrow> Some (Inl AttributeError)
         | Some p \<Rightarrow>
             wait_for_turn (c\<lparr>player := p, server_states := pulled_server_states s\<rparr>) pulls)
      else Some (Inr (c, s # pulls)))"

declare wait_for_turn.simps [simp del]

text \<open>Lines 85 to 98. \<^verbatim>\<open>pickle.loads\<close> is a parameter.\<close>

definition report_step ::
  "(bytes \<Rightarrow> error + 'w) \<Rightarrow> string list \<Rightarrow> 'obs client \<Rightarrow> 'obs snapshot list
     \<Rightarrow> error + ((string \<rightharpoonup> 'obs) \<times> real \<times> bool \<times> 'w option) \<times> 'obs client \<times> 'obs snapshot list" where
  "report_step loads dimension_names c pulls =
     (let dimensions = map_of (map (\<lambda>d. (d, dimension (player c) d)) dimension_names);
          reward = reward_from_last_turn (player c)
      in case game_is_terminal c of
           Inl e \<Rightarrow> Inl e
         | Inr terminal0 \<Rightarrow>
             if terminal0 then
               (case server_states c of
                  [] \<Rightarrow> Inl IndexError
                | state # _ \<Rightarrow>
                    (case loads (winners state) of
                       Inl e \<Rightarrow> Inl e
                     | Inr winners0 \<Rightarrow>
                         (let p = (player c)\<lparr>acknowledges_game_over := True\<rparr>;
                              c = c\<lparr>player := p, pushed := pushed c @ [p]\<rparr>
                          in Inr ((dimensions, reward, terminal0, Some winners0), c, pulls))))
             else Inr ((dimensions, reward, terminal0, None), c, pulls))"

text \<open>Lines 68 to 98: the command \<^verbatim>\<open>'step'\<close> with the action \<open>data\<close>.\<close>

definition client_app_step ::
  "(bytes \<Rightarrow> error + 'w) \<Rightarrow> string list \<Rightarrow> 'obs client \<Rightarrow> string \<Rightarrow> 'obs snapshot list
     \<Rightarrow> (error + ((string \<rightharpoonup> 'obs) \<times> real \<times> bool \<times> 'w option) \<times> 'obs client \<times> 'obs snapshot list)
          option" where
  "client_app_step loads dimension_names c data pulls =
     (case game_is_terminal c of
        Inl e \<Rightarrow> Some (Inl e)
      | Inr terminal0 \<Rightarrow>
          (case (if \<not> terminal0 then
                   (let p = (player c)\<lparr>action := data, ready_for_action_to_be_taken := True\<rparr>;
                        c = c\<lparr>player := p, pushed := pushed c @ [p]\<rparr>
                    in wait_for_turn c pulls)
                 else Some (Inr (c, pulls))) of
             None \<Rightarrow> None
           | Some (Inl e) \<Rightarrow> Some (Inl e)
           | Some (Inr (c, pulls)) \<Rightarrow> Some (report_step loads dimension_names c pulls)))"

text \<open>Lines 100 to 103: the command \<^verbatim>\<open>'close'\<close>.\<close>

definition client_app_close :: "'obs client \<Rightarrow> 'obs client" where
  "client_app_close c = c\<lparr>player_deleted := True, remote_closed := True, running := False\<rparr>"

text \<open>
  \<^verbatim>\<open>ClientNetworkEnv.step\<close>: the command goes down the pipe and the answer comes back.
  \<^verbatim>\<open>Connection.send\<close> raises \<^verbatim>\<open>BrokenPipeError\<close> when the other end of the pipe has
  been closed; when the worker has left its loop nobody answers and \<^verbatim>\<open>recv\<close> does not
  return. An exception of the worker is shown as the result.
\<close>

definition ClientNetworkEnv_step ::
  "(bytes \<Rightarrow> error + 'w) \<Rightarrow> string list \<Rightarrow> 'obs client \<Rightarrow> string \<Rightarrow> 'obs snapshot list
     \<Rightarrow> (error + ((string \<rightharpoonup> 'obs) \<times> real \<times> bool \<times> 'w option) \<times> 'obs client \<times> 'obs snapshot list)
          option" where
  "ClientNetworkEnv_step loads dimension_names c action0 pulls =
     (if remote_closed c then Some (Inl BrokenPipeError)
      else if \<not> running c then None
      else client_app_step loads dimension_names c action0 pulls)"

text \<open>
  \<^verbatim>\<open>ClientNetworkEnv.close\<close>: \<^verbatim>\<open>send(("close", None))\<close>, then \<^verbatim>\<open>join()\<close>. The worker
  runs as a thread of the same process (the comment of line 23), so its
  \<^verbatim>\<open>remote.close()\<close> closes the other end of the adapter's pipe. A worker that has left
  its loop reads nothing more, and \<^verbatim>\<open>join\<close> returns at once. The result is the
  exception \<^verbatim>\<open>close\<close> raises, if any, and the state it leaves.
\<close>

definition ClientNetworkEnv_close :: "'obs client \<Rightarrow> error option \<times> 'obs client" where
  "ClientNetworkEnv_close c =
     (if remote_closed c then (Some BrokenPipeError, c)
      else if \<not> running c then (None, c)
      else (None, client_app_close c))"

section \<open>Example states\<close>

text \<open>
  A matchmaker as the constructor builds it when no port is in use: empty database, one
  game at a time, ports 21450 and 21451, \<open>n\<close> players for each game, and random
  bytes that are 0x11 thirty-two times and 0x22 from then on.
\<close>

definition example_entropy :: "nat \<Rightarrow> byte" where
  "example_entropy i = (if i < 32 then 0x11 else 0x22)"

definition fresh_thread :: "int \<Rightarrow> MatchmakingThread" where
  "fresh_thread n =
     \<lparr>match_limit = 1, ports_to_use = [21450, 21451], database = Map.empty,
      players_per_game = n, hostname = ''localhost'',
      create_match_server_args = match_server_args_factory 60 False False [],
      match_requests = [], janitors = [], entropy = example_entropy\<rparr>"

definition request_of :: "string \<Rightarrow> QuickMatchRequest" where
  "request_of u = \<lparr>username = u, password = [1]\<rparr>"

text \<open>
  The matchmaker of \<open>fresh_thread 2\<close> after the request of \<^verbatim>\<open>alice\<close>: she is logged in
  and waits with the first token.
\<close>

definition alice_waiting :: MatchmakingThread where
  "alice_waiting =
     (fresh_thread 2)
       \<lparr>database :=
          [''alice'' \<mapsto> \<lparr>row_password_hash = [1], row_ranking = 1000, row_logged_in = True\<rparr>],
        match_requests :=
          [([1], request_of ''alice'',
            ''1111111111111111111111111111111111111111111111111111111111111111'')],
        entropy := (\<lambda>i. 0x22)\<rparr>"

text \<open>
  The shared objects while the match of \<^verbatim>\<open>alice\<close> runs on port 21450 (one player for
  each game, one game at a time), and the janitor of that match.
\<close>

definition busy_shared :: shared where
  "busy_shared =
     \<lparr>match_limit = 0, ports_to_use = [21451],
      database =
        [''alice'' \<mapsto> \<lparr>row_password_hash = [1], row_ranking = 1000, row_logged_in = True\<rparr>]\<rparr>"

definition alice_janitor :: MatchProcessJanitor where
  "alice_janitor =
     \<lparr>janitor_args = match_server_args_factory 60 False False [] 21450,
      player_list = [''alice''],
      whitelist = [''1111111111111111111111111111111111111111111111111111111111111111'']\<rparr>"

text \<open>
  A client in its command loop at its turn, in a game of one observation dimension
  \<^verbatim>\<open>x\<close> that is not over; the same client when the game is over; and two pulls: the
  first brings the record while the server still holds the action, the second brings the
  next turn with the observation 5 and the reward 1.
\<close>

definition example_player :: "nat Player" where
  "example_player =
     \<lparr>pid = 1, name = ''alice'', number = 0, turn = True, action = [],
      ready_for_action_to_be_taken = False, reward_from_last_turn = 0,
      acknowledges_game_over = False, dimension = (\<lambda>d. 0)\<rparr>"

definition example_state :: "bool \<Rightarrow> ServerState" where
  "example_state over =
     \<lparr>env_class_name = ''test'', env_dimensions = [''x''], terminal = over,
      winners = [7], serialized_state = []\<rparr>"

definition example_client :: "bool \<Rightarrow> nat client" where
  "example_client over =
     \<lparr>player = example_player, server_states = [example_state over], pushed = [],
      player_deleted = False, remote_closed = False, running = True\<rparr>"

definition example_pulls :: "nat snapshot list" where
  "example_pulls =
     [\<lparr>pulled_player =
         Some (example_player\<lparr>action := ''go'', ready_for_action_to_be_taken := True\<rparr>),
       pulled_server_states = [example_state False]\<rparr>,
      \<lparr>pulled_player =
         Some (example_player\<lparr>action := ''go'', reward_from_last_turn := 1,
                 dimension := (\<lambda>d. 5)\<rparr>),
       pulled_server_states = [example_state False]\<rparr>]"

text \<open>A pull that brings the next turn together with the end of the game.\<close>

definition example_last_pull :: "nat snapshot" where
  "example_last_pull =
     \<lparr>pulled_player = Some (example_player\<lparr>action := ''go'', reward_from_last_turn := 1\<rparr>),
      pulled_server_states = [example_state True]\<rparr>"

text \<open>A stand-in for \<^verbatim>\<open>pickle.loads\<close> that returns the bytes it is given.\<close>

definition example_loads :: "bytes \<Rightarrow> error + bytes" where
  "example_loads b = Inr b"

section \<open>Notions used by the statements\<close>

text \<open>
  The reply of lines 204 to 208 for one member \<open>(identity, request, token)\<close> of a
  cohort whose name is in the dictionary of rankings.
\<close>

definition success_reply ::
  "string \<Rightarrow> int \<Rightarrow> (string \<rightharpoonup> real) \<Rightarrow> identity \<times> QuickMatchRequest \<times> string
     \<Rightarrow> identity \<times> QuickMatchReply" where
  "success_reply h p entries member =
     (fst member,
      \<lparr>reply_username = username (fst (snd member)),
       server = h @ '':'' @ str_int p,
       auth_key = snd (snd member),
       ranking = the (entries (username (fst (snd member)))),
       response = []\<rparr>)"

text \<open>The test of the loop of lines 79 to 83: the client still has to wait.\<close>

definition waiting :: "'obs Player \<Rightarrow> bool" where
  "waiting p = (\<not> turn p \<or> ready_for_action_to_be_taken p)"

text \<open>The dictionary of line 85 for a player record.\<close>

definition observations_of :: "string list \<Rightarrow> 'obs Player \<Rightarrow> string \<rightharpoonup> 'obs" where
  "observations_of dimension_names p = map_of (map (\<lambda>d. (d, dimension p d)) dimension_names)"

text \<open>A token as \<^verbatim>\<open>secrets.token_hex(32)\<close> prints it: 64 hexadecimal digits.\<close>

definition is_token :: "string \<Rightarrow> bool" where
  "is_token t = (length t = 64 \<and> (\<forall>c \<in> set t. c \<in> set ''0123456789abcdef''))"

text \<open>Whether \<^verbatim>\<open>login\<close> lets the request pass lines 162 to 176.\<close>

definition accepted :: "MatchmakingThread \<Rightarrow> QuickMatchRequest \<Rightarrow> bool" where
  "accepted self request =
     (fst (login (username request) (password request) (database self)) \<noteq> LoginDuplicate
      \<and> fst (login (username request) (password request) (database self)) \<noteq> LoginFail)"

text \<open>What an outcome of the loop shows: the database, the messages sent, the cohorts.\<close>

definition database_after ::
  "stop + MatchmakingThread \<times> (identity \<times> QuickMatchReply) list \<Rightarrow> ranking_database" where
  "database_after outcome =
     (case outcome of Inl _ \<Rightarrow> Map.empty | Inr (self, _) \<Rightarrow> database self)"

definition sent_by ::
  "stop + MatchmakingThread \<times> (identity \<times> QuickMatchReply) list
     \<Rightarrow> (identity \<times> QuickMatchReply) list" where
  "sent_by outcome = (case outcome of Inl _ \<Rightarrow> [] | Inr (_, sent) \<Rightarrow> sent)"

definition cohorts_started ::
  "stop + MatchmakingThread \<times> (identity \<times> QuickMatchReply) list \<Rightarrow> string list list" where
  "cohorts_started outcome =
     (case outcome of Inl _ \<Rightarrow> [] | Inr (self, _) \<Rightarrow> map player_list (janitors self))"

definition waiting_after ::
  "stop + MatchmakingThread \<times> (identity \<times> QuickMatchReply) list \<Rightarrow> string list" where
  "waiting_after outcome =
     (case outcome of
        Inl _ \<Rightarrow> []
      | Inr (self, _) \<Rightarrow> map (\<lambda>member. username (fst (snd member))) (match_requests self))"

section \<open>Evaluation of the hash\<close>

lemma replicate_pred_numeral: "replicate (numeral k) (0 :: byte) = 0 # replicate (pred_numeral k) 0"
  by (simp add: numeral_eq_Suc)

lemma be_bytes_numeral:
  "be_bytes (numeral k) v = be_bytes (pred_numeral k) (v div 256) @ [of_nat (v mod 256)]"
proof -
  have "be_bytes (Suc (pred_numeral k)) v
          = be_bytes (pred_numeral k) (v div 256) @ [of_nat (v mod 256)]"
    by (rule be_bytes.simps(2))
  then show ?thesis
    by (simp only: numeral_eq_Suc [of k])
qed

lemmas sha_round_simps =
  T1_def T2_def next_state_def next_w_def Sigma0_def Sigma1_def sigma0_def sigma1_def
  Ch_def Maj_def rotr_def shr_def w32_def

lemma hash_blocks_single: "length p = 64 \<Longrightarrow> hash_blocks s p = compress s p"
  by (subst hash_blocks.simps, simp, subst hash_blocks.simps, simp)

lemma pad_ba:
  "pad [0x62, 0x61] = [0x62, 0x61, 0x80] @ replicate 53 0 @ [0, 0, 0, 0, 0, 0, 0, 16]"
  by (simp add: pad_def be_bytes_numeral)

lemma pad_ab:
  "pad [0x61, 0x62] = [0x61, 0x62, 0x80] @ replicate 53 0 @ [0, 0, 0, 0, 0, 0, 0, 16]"
  by (simp add: pad_def be_bytes_numeral)

lemma be32_pad_ba:
  "be32 (pad [0x62, 0x61]) = [0x62618000, 0, 0, 0, 0, 0, 0, 0, 0, 0, 0, 0, 0, 0, 0, 16]"
  by (simp add: pad_ba replicate_pred_numeral)

lemma be32_pad_ab:
  "be32 (pad [0x61, 0x62]) = [0x61628000, 0, 0, 0, 0, 0, 0, 0, 0, 0, 0, 0, 0, 0, 0, 16]"
  by (simp add: pad_ab replicate_pred_numeral)

lemma length_pad_ba: "length (pad [0x62, 0x61]) = 64"
  by (simp add: pad_ba)

lemma length_pad_ab: "length (pad [0x61, 0x62]) = 64"
  by (simp add: pad_ab)

text \<open>The digests of the two-byte messages \<^verbatim>\<open>b"ba"\<close> and \<^verbatim>\<open>b"ab"\<close>.\<close>

lemma sha256_ba:
  "sha256 [0x62, 0x61] =
     [0x97, 0x0f, 0x51, 0x9c, 0x2c, 0xad, 0xbc, 0xef,
      0xb1, 0xe8, 0x16, 0x94, 0xf9, 0x04, 0xbc, 0x62,
      0x29, 0xdd, 0x2a, 0x83, 0x00, 0xe9, 0x8c, 0x6d,
      0x0d, 0x4f, 0xc4, 0xbf, 0xca, 0x58, 0x41, 0x40]"
  by (simp add: sha256_def hash_blocks_single length_pad_ba compress_def be32_pad_ba
      K256_def H256_def sha_round_simps be_bytes_numeral)

lemma sha256_ab:
  "sha256 [0x61, 0x62] =
     [0xfb, 0x8e, 0x20, 0xfc, 0x2e, 0x4c, 0x3f, 0x24,
      0x8c, 0x60, 0xc3, 0x9b, 0xd6, 0x52, 0xf3, 0xc1,
      0x34, 0x72, 0x98, 0xbb, 0x97, 0x7b, 0x8b, 0x4d,
      0x59, 0x03, 0xb8, 0x50, 0x55, 0x62, 0x06, 0x03]"
  by (simp add: sha256_def hash_blocks_single length_pad_ab compress_def be32_pad_ab
      K256_def H256_def sha_round_simps be_bytes_numeral)

lemma encode_a: "encode ''a'' = [0x61]"
  by (simp add: encode_def encode_char_def)

lemma encode_b: "encode ''b'' = [0x62]"
  by (simp add: encode_def encode_char_def)

lemma hash_password_eq: "hash_password u p = sha256 (encode p @ encode u)"
  by (simp add: hash_password_def sha256_new_def update_def digest_def)

section \<open>The password hash\<close>

text \<open>
  C6. For every username \<open>u\<close> and password \<open>p\<close>, \<open>hash_password u p\<close> is the
  SHA-256 digest of the password bytes followed by the username bytes. It is a function
  of the pair alone, so repeated invocation gives the same digest, and the order matters:
  for the username \<^verbatim>\<open>a\<close> and the password \<^verbatim>\<open>b\<close> it differs from the digest of the
  username bytes followed by the password bytes.
\<close>

theorem hash_password_sha256:
  "hash_password u p = sha256 (encode p @ encode u)
   \<and> digest (update (update sha256_new (encode p)) (encode u)) = hash_password u p
   \<and> hash_password ''a'' ''b'' \<noteq> sha256 (encode ''a'' @ encode ''b'')"
proof -
  have "sha256 [0x62, 0x61] \<noteq> sha256 [0x61, 0x62]"
    unfolding sha256_ba sha256_ab by simp
  then show ?thesis
    by (simp add: hash_password_eq encode_a encode_b)
      (simp add: sha256_new_def update_def digest_def)
qed

theorem hash_password_sha256_witness:
  "hash_password ''a'' ''b'' =
     [0x97, 0x0f, 0x51, 0x9c, 0x2c, 0xad, 0xbc, 0xef,
      0xb1, 0xe8, 0x16, 0x94, 0xf9, 0x04, 0xbc, 0x62,
      0x29, 0xdd, 0x2a, 0x83, 0x00, 0xe9, 0x8c, 0x6d,
      0x0d, 0x4f, 0xc4, 0xbf, 0xca, 0x58, 0x41, 0x40]"
  using hash_password_sha256 [of "''a''" "''b''"]
  by (simp add: encode_a encode_b sha256_ba)

section \<open>Startup of the matchmaker\<close>

lemma set_probe_ports:
  "set (probe_ports in_use sp mg) = {p. sp \<le> p \<and> p < sp + 2 * mg \<and> \<not> in_use p}"
  by (auto simp: probe_ports_def)

lemma distinct_probe_ports: "distinct (probe_ports in_use sp mg)"
  by (simp add: probe_ports_def)

lemma length_probe_ports:
  "length (probe_ports in_use sp mg) = card {p. sp \<le> p \<and> p < sp + 2 * mg \<and> \<not> in_use p}"
  using distinct_card [OF distinct_probe_ports, of in_use sp mg]
  by (simp add: set_probe_ports)

text \<open>
  C5. At startup exactly the ports of \<open>[starting_port, starting_port + 2 * max_games)\<close>
  that are not in use enter the free-port queue, each once; when fewer than
  \<open>max_games\<close> of them exist the constructor raises \<^verbatim>\<open>OSError\<close>, and a constructed
  matchmaker holds those ports and at least \<open>max_games\<close> of them. When at least
  \<open>max_games\<close> of them exist (and \<open>max_games\<close> is not negative, which the semaphore
  refuses), the constructor does return a matchmaker: its free-port queue is those ports
  in increasing order, its semaphore holds \<open>max_games\<close> units, and its deque is empty.
\<close>

theorem startup_ports:
  "set (probe_ports in_use sp mg) = {p. sp \<le> p \<and> p < sp + 2 * mg \<and> \<not> in_use p}
   \<and> distinct (probe_ports in_use sp mg)
   \<and> (int (card {p. sp \<le> p \<and> p < sp + 2 * mg \<and> \<not> in_use p}) < mg \<longrightarrow>
        MatchmakingThread_init in_use db rnd sp h mg mp tr rt oo cfg = Inl OSError)
   \<and> (\<forall>self. MatchmakingThread_init in_use db rnd sp h mg mp tr rt oo cfg = Inr self \<longrightarrow>
          ports_to_use self = probe_ports in_use sp mg
          \<and> mg \<le> int (length (ports_to_use self)))
   \<and> (0 \<le> mg \<and> mg \<le> int (card {p. sp \<le> p \<and> p < sp + 2 * mg \<and> \<not> in_use p}) \<longrightarrow>
        MatchmakingThread_init in_use db rnd sp h mg mp tr rt oo cfg =
          Inr \<lparr>match_limit = nat mg,
               ports_to_use = probe_ports in_use sp mg,
               database = db,
               players_per_game = mp,
               hostname = h,
               create_match_server_args = match_server_args_factory tr rt oo cfg,
               match_requests = [],
               janitors = [],
               entropy = rnd\<rparr>)
   \<and> sorted (probe_ports in_use sp mg)
   \<and> (mg < 0 \<longrightarrow>
        MatchmakingThread_init in_use db rnd sp h mg mp tr rt oo cfg = Inl ValueError)"
proof (intro conjI allI impI)
  show "set (probe_ports in_use sp mg) = {p. sp \<le> p \<and> p < sp + 2 * mg \<and> \<not> in_use p}"
    by (rule set_probe_ports)
  show "distinct (probe_ports in_use sp mg)"
    by (rule distinct_probe_ports)
  show "sorted (probe_ports in_use sp mg)"
    by (simp add: probe_ports_def sorted_wrt_filter)
next
  assume few: "int (card {p. sp \<le> p \<and> p < sp + 2 * mg \<and> \<not> in_use p}) < mg"
  then have "0 \<le> mg" by linarith
  with few show "MatchmakingThread_init in_use db rnd sp h mg mp tr rt oo cfg = Inl OSError"
    by (simp add: MatchmakingThread_init_def length_probe_ports)
next
  fix self
  assume ok: "MatchmakingThread_init in_use db rnd sp h mg mp tr rt oo cfg = Inr self"
  then show "ports_to_use self = probe_ports in_use sp mg"
    by (auto simp: MatchmakingThread_init_def Let_def split: if_splits)
  from ok show "mg \<le> int (length (ports_to_use self))"
    by (auto simp: MatchmakingThread_init_def Let_def split: if_splits)
next
  assume enough: "0 \<le> mg \<and> mg \<le> int (card {p. sp \<le> p \<and> p < sp + 2 * mg \<and> \<not> in_use p})"
  then show "MatchmakingThread_init in_use db rnd sp h mg mp tr rt oo cfg =
          Inr \<lparr>match_limit = nat mg,
               ports_to_use = probe_ports in_use sp mg,
               database = db,
               players_per_game = mp,
               hostname = h,
               create_match_server_args = match_server_args_factory tr rt oo cfg,
               match_requests = [],
               janitors = [],
               entropy = rnd\<rparr>"
    by (simp add: MatchmakingThread_init_def length_probe_ports Let_def)
next
  assume "mg < 0"
  then show "MatchmakingThread_init in_use db rnd sp h mg mp tr rt oo cfg = Inl ValueError"
    by (simp add: MatchmakingThread_init_def)
qed

theorem startup_ports_witness:
  "MatchmakingThread_init (\<lambda>p. True) Map.empty (\<lambda>i. 0) 21450 ''localhost'' 1 1 60 False False []
     = Inl OSError
   \<and> set (probe_ports (\<lambda>p. p = 21451) 21450 1) = {21450}
   \<and> MatchmakingThread_init (\<lambda>p. False) Map.empty example_entropy 21450 ''localhost'' 1 2 60
        False False [] = Inr (fresh_thread 2)
   \<and> MatchmakingThread_init (\<lambda>p. p = 21451) Map.empty example_entropy 21450 ''localhost'' 1 2 60
        False False [] = Inr ((fresh_thread 2)\<lparr>ports_to_use := [21450]\<rparr>)"
proof -
  have none: "int (card {p. (21450 :: int) \<le> p \<and> p < 21450 + 2 * 1 \<and> \<not> True}) < 1"
    by simp
  have one: "{p. (21450 :: int) \<le> p \<and> p < 21450 + 2 * 1 \<and> \<not> p = 21451} = {21450}"
    by auto
  have two: "{p. (21450 :: int) \<le> p \<and> p < 21450 + 2 * 1 \<and> \<not> False} = {21450, 21451}"
    by auto
  have ports1: "probe_ports (\<lambda>p. p = 21451) 21450 1 = [21450]"
    by (simp add: probe_ports_def)
  have ports2: "probe_ports (\<lambda>p. False) 21450 1 = [21450, 21451]"
    by (simp add: probe_ports_def)
  have a: "MatchmakingThread_init (\<lambda>p. True) Map.empty (\<lambda>i. 0) 21450 ''localhost'' 1 1 60
      False False [] = Inl OSError"
    using none
      startup_ports [of "\<lambda>p. True" 21450 1 Map.empty "\<lambda>i. 0" "''localhost''" 1 60 False False "[]"]
    by blast
  have b: "set (probe_ports (\<lambda>p. p = 21451) 21450 1) = {21450}"
    using one
      startup_ports [of "\<lambda>p. p = 21451" 21450 1 Map.empty "\<lambda>i. 0" "''localhost''" 1 60 False
        False "[]"]
    by simp
  have "card {p. (21450 :: int) \<le> p \<and> p < 21450 + 2 * 1 \<and> \<not> False} = 2"
    unfolding two by simp
  then have "(0 :: int) \<le> 1
      \<and> 1 \<le> int (card {p. (21450 :: int) \<le> p \<and> p < 21450 + 2 * 1 \<and> \<not> False})"
    by (simp only:) simp
  with startup_ports [of "\<lambda>p. False" 21450 1 Map.empty example_entropy "''localhost''" 2 60
      False False "[]"]
  have c: "MatchmakingThread_init (\<lambda>p. False) Map.empty example_entropy 21450 ''localhost'' 1 2 60
        False False [] = Inr (fresh_thread 2)"
    by (simp add: ports2 fresh_thread_def)
  have "card {p. (21450 :: int) \<le> p \<and> p < 21450 + 2 * 1 \<and> \<not> p = 21451} = 1"
    unfolding one by simp
  then have "(0 :: int) \<le> 1
      \<and> 1 \<le> int (card {p. (21450 :: int) \<le> p \<and> p < 21450 + 2 * 1 \<and> \<not> p = 21451})"
    by (simp only:) simp
  with startup_ports [of "\<lambda>p. p = 21451" 21450 1 Map.empty example_entropy "''localhost''" 2 60
      False False "[]"]
  have d: "MatchmakingThread_init (\<lambda>p. p = 21451) Map.empty example_entropy 21450 ''localhost'' 1 2
        60 False False [] = Inr ((fresh_thread 2)\<lparr>ports_to_use := [21450]\<rparr>)"
    by (simp add: ports1 fresh_thread_def)
  from a b c d show ?thesis
    by blast
qed

section \<open>The request loop of the matchmaker\<close>

subsection \<open>Popping a cohort\<close>

lemma pop_players_eq:
  "n \<le> length dq \<Longrightarrow> pop_players n dq = Inr (take n (rev dq), take (length dq - n) dq)"
proof (induction n arbitrary: dq)
  case 0
  then show ?case by simp
next
  case (Suc n)
  then have "dq \<noteq> []" by auto
  then obtain xs x where dq: "dq = xs @ [x]"
    by (meson rev_exhaust)
  with Suc.prems have "n \<le> length xs" by simp
  from Suc.IH [OF this] show ?case
    by (simp add: dq)
qed

lemma pop_players_short: "length dq < n \<Longrightarrow> pop_players n dq = Inl IndexError"
proof (induction n arbitrary: dq)
  case 0
  then show ?case by simp
next
  case (Suc n)
  show ?case
  proof (cases dq rule: rev_cases)
    case Nil
    then show ?thesis by simp
  next
    case (snoc xs x)
    with Suc.prems have "length xs < n" by simp
    from Suc.IH [OF this] snoc show ?thesis by simp
  qed
qed

lemma pop_players_Inr:
  assumes "pop_players n dq = Inr (popped, remaining)"
  shows "n \<le> length dq \<and> popped = take n (rev dq) \<and> remaining = take (length dq - n) dq"
proof -
  have le: "n \<le> length dq"
  proof (rule ccontr)
    assume "\<not> n \<le> length dq"
    then have "pop_players n dq = Inl IndexError"
      by (simp add: pop_players_short)
    with assms show False by simp
  qed
  with assms show ?thesis
    by (simp add: pop_players_eq)
qed

subsection \<open>The replies\<close>

lemma send_replies_Inr:
  "send_replies h p entries members = Inr sent
     \<Longrightarrow> sent = map (success_reply h p entries) members"
proof (induction members arbitrary: sent)
  case Nil
  then show ?case by simp
next
  case (Cons member members)
  obtain i r t where member: "member = (i, r, t)"
    by (cases member) auto
  from Cons.prems obtain rk rest where
    rk: "entries (username r) = Some rk" and
    rest: "send_replies h p entries members = Inr rest" and
    sent: "sent = (i, \<lparr>reply_username = username r, server = h @ '':'' @ str_int p,
                      auth_key = t, ranking = rk, response = []\<rparr>) # rest"
    by (auto simp: member split: option.splits sum.splits)
  from Cons.IH [OF rest] show ?case
    by (simp add: sent member success_reply_def rk)
qed

lemma send_replies_total:
  "\<forall>member \<in> set members. entries (username (fst (snd member))) \<noteq> None
     \<Longrightarrow> \<exists>sent. send_replies h p entries members = Inr sent"
proof (induction members)
  case Nil
  then show ?case by simp
next
  case (Cons member members)
  obtain i r t where member: "member = (i, r, t)"
    by (cases member) auto
  from Cons.prems obtain rk where rk: "entries (username r) = Some rk"
    by (auto simp: member)
  from Cons obtain rest where "send_replies h p entries members = Inr rest"
    by auto
  then show ?case
    by (simp add: member rk)
qed

subsection \<open>Starting a match\<close>

lemma start_match_Inr:
  assumes "start_match server_ready self = Inr (self', sent)"
  shows "nat (players_per_game self) \<le> length (match_requests self)
    \<and> match_limit self \<noteq> 0
    \<and> ports_to_use self \<noteq> []
    \<and> self' = self
        \<lparr>match_limit := match_limit self - 1,
         match_requests :=
           take (length (match_requests self) - nat (players_per_game self)) (match_requests self),
         ports_to_use := tl (ports_to_use self),
         janitors := janitors self @
           [\<lparr>janitor_args = create_match_server_args self (hd (ports_to_use self)),
             player_list = map (\<lambda>player. username (fst (snd player)))
               (take (nat (players_per_game self)) (rev (match_requests self))),
             whitelist = map (\<lambda>player. snd (snd player))
               (take (nat (players_per_game self)) (rev (match_requests self)))\<rparr>]\<rparr>
    \<and> sent = map (success_reply (hostname self) (hd (ports_to_use self))
                 (database_entries
                    (map (\<lambda>player. username (fst (snd player)))
                       (take (nat (players_per_game self)) (rev (match_requests self))))
                    (database self)))
             (take (nat (players_per_game self)) (rev (match_requests self)))"
proof -
  from assms have lim: "match_limit self \<noteq> 0"
    by (auto simp: start_match_def split: if_splits)
  from assms lim obtain popped remaining where
    pop: "pop_players (nat (players_per_game self)) (match_requests self) = Inr (popped, remaining)"
    by (auto simp: start_match_def Let_def split: sum.splits)
  note p = pop_players_Inr [OF pop]
  from assms lim pop obtain match_port free where
    ports: "ports_to_use self = match_port # free"
    by (auto simp: start_match_def Let_def split: list.splits)
  from assms lim pop ports obtain out where
    out: "send_replies (hostname self) match_port
            (database_entries (map (\<lambda>player. username (fst (snd player))) popped) (database self))
            popped = Inr out"
    by (auto simp: start_match_def Let_def split: if_splits sum.splits)
  from assms lim pop ports out have
    "self' = self
        \<lparr>match_limit := match_limit self - 1,
         match_requests := remaining,
         ports_to_use := free,
         janitors := janitors self @
           [\<lparr>janitor_args = create_match_server_args self match_port,
             player_list = map (\<lambda>player. username (fst (snd player))) popped,
             whitelist = map (\<lambda>player. snd (snd player)) popped\<rparr>]\<rparr>"
    and "sent = out"
    by (auto simp: start_match_def Let_def split: if_splits)
  with p lim ports send_replies_Inr [OF out] show ?thesis
    by simp
qed

subsection \<open>Enqueueing\<close>

lemma enqueue_waits:
  assumes "int (length (match_requests self)) + 1 < players_per_game self"
  shows "enqueue server_ready self identity0 request =
           Inr (self\<lparr>entropy := snd (token_hex 32 (entropy self)),
                     match_requests := match_requests self @
                       [(identity0, request, fst (token_hex 32 (entropy self)))]\<rparr>, [])"
  using assms by (simp add: enqueue_def Let_def split_beta)

lemma enqueue_starts:
  assumes "players_per_game self \<le> int (length (match_requests self)) + 1"
  shows "enqueue server_ready self identity0 request =
           start_match server_ready
             (self\<lparr>entropy := snd (token_hex 32 (entropy self)),
                   match_requests := match_requests self @
                     [(identity0, request, fst (token_hex 32 (entropy self)))]\<rparr>)"
  using assms by (simp add: enqueue_def Let_def split_beta)

text \<open>
  Whatever \<^verbatim>\<open>enqueue\<close> returns, the deque with the new entry is split into what stays
  and the cohort, which is read from the right end.
\<close>

lemma enqueue_Inr:
  assumes "enqueue server_ready self identity0 request = Inr (self', sent)"
  defines "dq \<equiv> match_requests self @ [(identity0, request, fst (token_hex 32 (entropy self)))]"
  shows "\<exists>cohort entries p.
           dq = match_requests self' @ rev cohort
           \<and> sent = map (success_reply (hostname self) p entries) cohort
           \<and> entropy self' = snd (token_hex 32 (entropy self))
           \<and> database self' = database self
           \<and> (players_per_game self \<le> int (length dq) \<longrightarrow>
                 cohort = take (nat (players_per_game self)) (rev dq))
           \<and> (int (length dq) < players_per_game self \<longrightarrow> cohort = [])"
proof (cases "players_per_game self \<le> int (length (match_requests self)) + 1")
  case True
  let ?self1 = "self\<lparr>entropy := snd (token_hex 32 (entropy self)), match_requests := dq\<rparr>"
  from assms(1) True have "start_match server_ready ?self1 = Inr (self', sent)"
    by (simp add: enqueue_starts dq_def)
  note sm = start_match_Inr [OF this]
  let ?n = "nat (players_per_game self)"
  from sm have n: "?n \<le> length dq" by simp
  have split: "dq = take (length dq - ?n) dq @ rev (take ?n (rev dq))"
    by (simp add: take_rev)
  from sm have mr: "match_requests self' = take (length dq - ?n) dq"
    and ent: "entropy self' = snd (token_hex 32 (entropy self))"
    and db: "database self' = database self"
    by simp_all
  from sm have sent: "sent = map (success_reply (hostname self) (hd (ports_to_use self))
        (database_entries (map (\<lambda>player. username (fst (snd player))) (take ?n (rev dq)))
           (database self))) (take ?n (rev dq))"
    by simp
  have lenle: "players_per_game self \<le> int (length dq)"
    using True by (simp add: dq_def)
  show ?thesis
  proof (rule exI [of _ "take ?n (rev dq)"],
      rule exI [of _ "database_entries (map (\<lambda>player. username (fst (snd player)))
              (take ?n (rev dq))) (database self)"],
      rule exI [of _ "hd (ports_to_use self)"], intro conjI impI)
    show "dq = match_requests self' @ rev (take ?n (rev dq))"
      unfolding mr by (rule split)
    show "sent = map (success_reply (hostname self) (hd (ports_to_use self))
        (database_entries (map (\<lambda>player. username (fst (snd player))) (take ?n (rev dq)))
           (database self))) (take ?n (rev dq))"
      by (rule sent)
    show "entropy self' = snd (token_hex 32 (entropy self))"
      by (rule ent)
    show "database self' = database self"
      by (rule db)
    show "take ?n (rev dq) = take (nat (players_per_game self)) (rev dq)"
      by simp
    assume "int (length dq) < players_per_game self"
    with lenle show "take ?n (rev dq) = []"
      by simp
  qed
next
  case False
  then have "int (length (match_requests self)) + 1 < players_per_game self" by simp
  from enqueue_waits [OF this, of server_ready identity0 request] assms(1)
  have "self' = self\<lparr>entropy := snd (token_hex 32 (entropy self)), match_requests := dq\<rparr>"
    and "sent = []"
    by (simp_all add: dq_def)
  moreover from False have "\<not> players_per_game self \<le> int (length dq)"
    by (simp add: dq_def)
  ultimately show ?thesis
    by simp
qed

subsection \<open>One request\<close>

lemma run_iteration_duplicate:
  assumes "fst (login (username request) (password request) (database self)) = LoginDuplicate"
  shows "run_iteration server_ready self (identity0, request) =
           Inr (self\<lparr>database := snd (login (username request) (password request) (database self))\<rparr>,
                [(identity0, fail_reply (username request)
                    ''Failed to login: Cannot login twice at the same time.'')])"
  using assms by (simp add: run_iteration_def Let_def split_beta)

lemma run_iteration_wrong_password:
  assumes "fst (login (username request) (password request) (database self)) = LoginFail"
  shows "run_iteration server_ready self (identity0, request) =
           Inr (self\<lparr>database := snd (login (username request) (password request) (database self))\<rparr>,
                [(identity0, fail_reply (username request) ''Failed to login: Wrong password.'')])"
  using assms by (simp add: run_iteration_def Let_def split_beta)

lemma run_iteration_accepted:
  assumes "accepted self request"
  shows "\<exists>db. run_iteration server_ready self (identity0, request) =
                enqueue server_ready (self\<lparr>database := db\<rparr>) identity0 request
              \<and> (\<forall>u. u \<noteq> username request \<longrightarrow> db u = database self u)
              \<and> db (username request) \<noteq> None"
proof (cases "fst (login (username request) (password request) (database self)) = NoUser")
  case True
  then have none: "database self (username request) = None"
    by (auto simp: login_def split: option.splits if_splits)
  let ?db = "snd (login (username request) (password request)
                    (set_user (username request) (password request) (database self)))"
  from True have "run_iteration server_ready self (identity0, request) =
      enqueue server_ready (self\<lparr>database := ?db\<rparr>) identity0 request"
    by (simp add: run_iteration_def Let_def split_beta none login_def)
  moreover have "\<forall>u. u \<noteq> username request \<longrightarrow> ?db u = database self u"
    by (simp add: login_def set_user_def none)
  moreover have "?db (username request) \<noteq> None"
    by (simp add: login_def set_user_def none)
  ultimately show ?thesis by blast
next
  case False
  let ?db = "snd (login (username request) (password request) (database self))"
  from False assms have "run_iteration server_ready self (identity0, request) =
      enqueue server_ready (self\<lparr>database := ?db\<rparr>) identity0 request"
    by (simp add: run_iteration_def Let_def split_beta accepted_def)
  moreover have "\<forall>u. u \<noteq> username request \<longrightarrow> ?db u = database self u"
    by (auto simp: login_def split: option.splits)
  moreover from False have "?db (username request) \<noteq> None"
    by (auto simp: login_def split: option.splits)
  ultimately show ?thesis by blast
qed

subsection \<open>Tokens\<close>

lemma hex_digit_mem: "n < 16 \<Longrightarrow> hex_digit n \<in> set ''0123456789abcdef''"
  unfolding hex_digit_def by (rule nth_mem) simp

lemma hex_byte_digits:
  assumes "c \<in> set (hex_byte b)"
  shows "c \<in> set ''0123456789abcdef''"
proof -
  have "unat b < 2 ^ LENGTH(8)"
    by (rule unsigned_less)
  then have "unat b < 256"
    by simp
  then have hi: "unat b div 16 < 16" and lo: "unat b mod 16 < 16"
    by simp_all
  from assms have "c = hex_digit (unat b div 16) \<or> c = hex_digit (unat b mod 16)"
    by (simp add: hex_byte_def)
  with hex_digit_mem [OF hi] hex_digit_mem [OF lo] show ?thesis
    by blast
qed

lemma length_hex_bytes: "length (concat (map (\<lambda>i. hex_byte (f i)) xs)) = 2 * length xs"
  by (induction xs) (simp_all add: hex_byte_def)

lemma token_hex_digits:
  assumes "c \<in> set (fst (token_hex n rnd))"
  shows "c \<in> set ''0123456789abcdef''"
proof -
  from assms obtain i where "c \<in> set (hex_byte (rnd i))"
    by (auto simp: token_hex_def)
  then show ?thesis
    by (rule hex_byte_digits)
qed

lemma is_token_token_hex: "is_token (fst (token_hex 32 rnd))"
  unfolding is_token_def
proof (intro conjI ballI)
  show "length (fst (token_hex 32 rnd)) = 64"
    by (simp add: token_hex_def length_hex_bytes)
next
  fix c
  assume "c \<in> set (fst (token_hex 32 rnd))"
  then show "c \<in> set ''0123456789abcdef''"
    by (rule token_hex_digits)
qed

lemma success_server_not_FAIL: "h @ '':'' @ s \<noteq> ''FAIL''"
proof
  assume eq: "h @ '':'' @ s = ''FAIL''"
  have "CHR '':'' \<in> set (h @ '':'' @ s)"
    by simp
  then have "CHR '':'' \<in> set ''FAIL''"
    by (simp only: eq)
  then show False
    by simp
qed


subsection \<open>The example run\<close>

lemma token_hex_example:
  "token_hex 32 example_entropy =
     (''1111111111111111111111111111111111111111111111111111111111111111'', (\<lambda>i. 0x22))"
  by (simp add: token_hex_def example_entropy_def hex_byte_def hex_digit_def upt_rec)

lemma token_hex_example2:
  "token_hex 32 (\<lambda>i. 0x22) =
     (''2222222222222222222222222222222222222222222222222222222222222222'', (\<lambda>i. 0x22))"
  by (simp add: token_hex_def hex_byte_def hex_digit_def upt_rec)

lemmas mm_eval =
  run_iteration_def enqueue_def start_match_def login_def set_user_def
  fresh_thread_def request_of_def database_entries_def
  get_multi_def str_int_def str_nat.simps digit_char_def match_server_args_factory_def
  default_ranking_def fail_reply_def Let_def pop_players_eq alice_waiting_def
  token_hex_example token_hex_example2

lemma alice_first:
  "run_iteration (\<lambda>j. True) (fresh_thread 2) ([1], request_of ''alice'') = Inr (alice_waiting, [])"
  by (simp add: mm_eval)

lemma bob_second:
  "\<exists>self'. run_iteration (\<lambda>j. True) alice_waiting ([2], request_of ''bob'') =
      Inr (self',
        [([2], \<lparr>reply_username = ''bob'', server = ''localhost:21450'',
                auth_key = ''2222222222222222222222222222222222222222222222222222222222222222'',
                ranking = 1000, response = []\<rparr>),
         ([1], \<lparr>reply_username = ''alice'', server = ''localhost:21450'',
                auth_key = ''1111111111111111111111111111111111111111111111111111111111111111'',
                ranking = 1000, response = []\<rparr>)])
      \<and> map player_list (janitors self') = [[''bob'', ''alice'']]
      \<and> match_requests self' = []"
  by (simp add: mm_eval)

lemma accepted_bob: "accepted alice_waiting (request_of ''bob'')"
  by (simp add: accepted_def login_def alice_waiting_def request_of_def fresh_thread_def)

lemma alice_again:
  "fst (login (username (request_of ''alice'')) (password (request_of ''alice''))
         (database alice_waiting)) = LoginDuplicate"
  by (simp add: login_def alice_waiting_def request_of_def fresh_thread_def)

subsection \<open>The deque between requests\<close>

text \<open>
  A match starts as soon as the deque reaches \<^verbatim>\<open>players_per_game\<close>, so between two
  requests the deque is shorter than that.
\<close>

lemma waiting_below_cohort_size:
  assumes ret: "run_iteration server_ready self (identity0, request) = Inr (self', sent)"
      and short: "int (length (match_requests self)) < players_per_game self"
  shows "int (length (match_requests self')) < players_per_game self'"
proof (cases "accepted self request")
  case False
  then consider
      "fst (login (username request) (password request) (database self)) = LoginDuplicate"
    | "fst (login (username request) (password request) (database self)) = LoginFail"
    by (auto simp: accepted_def)
  then show ?thesis
  proof cases
    case 1
    from run_iteration_duplicate [OF 1, of server_ready identity0] ret short show ?thesis
      by auto
  next
    case 2
    from run_iteration_wrong_password [OF 2, of server_ready identity0] ret short show ?thesis
      by auto
  qed
next
  case True
  from run_iteration_accepted [OF True, of server_ready identity0] obtain db where
    eq: "run_iteration server_ready self (identity0, request) =
           enqueue server_ready (self\<lparr>database := db\<rparr>) identity0 request"
    by blast
  let ?self0 = "self\<lparr>database := db\<rparr>"
  let ?self1 = "?self0\<lparr>entropy := snd (token_hex 32 (entropy ?self0)),
                        match_requests := match_requests ?self0 @
                          [(identity0, request, fst (token_hex 32 (entropy ?self0)))]\<rparr>"
  show ?thesis
  proof (cases "players_per_game self \<le> int (length (match_requests self)) + 1")
    case True
    then have "start_match server_ready ?self1 = Inr (self', sent)"
      using ret eq enqueue_starts [of ?self0 server_ready identity0 request] by simp
    from start_match_Inr [OF this] True short show ?thesis
      by simp
  next
    case False
    then have "enqueue server_ready ?self0 identity0 request = Inr (?self1, [])"
      using enqueue_waits [of ?self0 server_ready identity0 request] by simp
    with ret eq False show ?thesis
      by auto
  qed
qed

subsection \<open>The order of a cohort\<close>

text \<open>
  C1, as amended. When an accepted request brings the deque to at least
  \<^verbatim>\<open>players_per_game\<close> entries, the cohort that starts the match is the
  \<^verbatim>\<open>players_per_game\<close> most recently appended requests, newest first: the deque read
  from its right end. The janitor's player list and whitelist and the replies follow
  that order, and the older requests stay in the deque in their order. Between requests the
  deque is shorter than \<^verbatim>\<open>players_per_game\<close>; the cohort is then the whole deque in
  reverse order of arrival, and the deque is left empty.
\<close>

theorem cohort_newest_first:
  assumes ret: "run_iteration server_ready self (identity0, request) = Inr (self', sent)"
      and acc: "accepted self request"
      and full: "players_per_game self \<le> int (length (match_requests self)) + 1"
  defines "dq \<equiv> match_requests self @ [(identity0, request, fst (token_hex 32 (entropy self)))]"
  defines "cohort \<equiv> take (nat (players_per_game self)) (rev dq)"
  shows "nat (players_per_game self) \<le> length dq
     \<and> map fst sent = map fst cohort
     \<and> janitors self' = janitors self @
          [\<lparr>janitor_args = create_match_server_args self (hd (ports_to_use self)),
            player_list = map (\<lambda>player. username (fst (snd player))) cohort,
            whitelist = map (\<lambda>player. snd (snd player)) cohort\<rparr>]
     \<and> match_requests self' = take (length dq - nat (players_per_game self)) dq
     \<and> (int (length (match_requests self)) < players_per_game self \<longrightarrow>
          cohort = rev dq \<and> match_requests self' = [])"
proof -
  from run_iteration_accepted [OF acc, of server_ready identity0] obtain db where
    eq: "run_iteration server_ready self (identity0, request) =
           enqueue server_ready (self\<lparr>database := db\<rparr>) identity0 request"
    by blast
  let ?self0 = "self\<lparr>database := db\<rparr>"
  let ?self1 = "?self0\<lparr>entropy := snd (token_hex 32 (entropy self)), match_requests := dq\<rparr>"
  from full have "start_match server_ready ?self1 = Inr (self', sent)"
    using ret eq enqueue_starts [of ?self0 server_ready identity0 request] by (simp add: dq_def)
  note sm = start_match_Inr [OF this]
  from sm have n: "nat (players_per_game self) \<le> length dq"
    by simp
  from sm have sent: "map fst sent = map fst cohort"
    by (simp add: cohort_def success_reply_def comp_def)
  from sm have jan: "janitors self' = janitors self @
          [\<lparr>janitor_args = create_match_server_args self (hd (ports_to_use self)),
            player_list = map (\<lambda>player. username (fst (snd player))) cohort,
            whitelist = map (\<lambda>player. snd (snd player)) cohort\<rparr>]"
    by (simp add: cohort_def)
  from sm have rest: "match_requests self' = take (length dq - nat (players_per_game self)) dq"
    by simp
  have whole: "cohort = rev dq \<and> match_requests self' = []"
    if "int (length (match_requests self)) < players_per_game self"
  proof -
    from that full have "nat (players_per_game self) = length dq"
      by (simp add: dq_def)
    with rest show ?thesis
      by (simp add: cohort_def)
  qed
  from n sent jan rest whole show ?thesis
    by blast
qed

theorem cohort_newest_first_witness:
  "map fst (sent_by (run_iteration (\<lambda>j. True) alice_waiting ([2], request_of ''bob''))) = [[2], [1]]
   \<and> cohorts_started (run_iteration (\<lambda>j. True) alice_waiting ([2], request_of ''bob''))
       = [[''bob'', ''alice'']]"
proof -
  from bob_second obtain self' sent where
    ret: "run_iteration (\<lambda>j. True) alice_waiting ([2], request_of ''bob'') = Inr (self', sent)"
    by blast
  have full: "players_per_game alice_waiting \<le> int (length (match_requests alice_waiting)) + 1"
    by (simp add: alice_waiting_def fresh_thread_def)
  from cohort_newest_first [OF ret accepted_bob full]
  have "map fst sent = [[2], [1]]" and "map player_list (janitors self') = [[''bob'', ''alice'']]"
    by (simp_all add: alice_waiting_def fresh_thread_def request_of_def)
  then show ?thesis
    by (simp add: ret sent_by_def cohorts_started_def)
qed

text \<open>
  The claim as stated fails: \<^verbatim>\<open>alice\<close> asks first and \<^verbatim>\<open>bob\<close> second, and the cohort
  is \<^verbatim>\<open>bob\<close>, \<^verbatim>\<open>alice\<close>; \<^verbatim>\<open>bob\<close> is answered first.
\<close>

theorem cohort_fifo_counterexample:
  "cohorts_started
     (run (\<lambda>j. True) (fresh_thread 2) [([1], request_of ''alice''), ([2], request_of ''bob'')])
     = [[''bob'', ''alice'']]
   \<and> map fst (sent_by
       (run (\<lambda>j. True) (fresh_thread 2) [([1], request_of ''alice''), ([2], request_of ''bob'')]))
     = [[2], [1]]
   \<and> cohorts_started
     (run (\<lambda>j. True) (fresh_thread 2) [([1], request_of ''alice''), ([2], request_of ''bob'')])
     \<noteq> [[''alice'', ''bob'']]"
proof -
  from bob_second obtain self' sent where
    "run_iteration (\<lambda>j. True) alice_waiting ([2], request_of ''bob'') = Inr (self', sent)"
    and "map fst sent = [[2], [1]]"
    and "map player_list (janitors self') = [[''bob'', ''alice'']]"
    by auto
  then show ?thesis
    by (simp add: alice_first sent_by_def cohorts_started_def)
qed

subsection \<open>A duplicate login\<close>

text \<open>
  C4. When \<^verbatim>\<open>login\<close> returns the duplicate-login result, the turn of the loop ends with
  the single reply \<open>server = "FAIL"\<close>, \<open>response = "Failed to login: Cannot login twice
  at the same time."\<close> to the sender; the deque, the semaphore, the port queue, the
  janitors and the random source are as before, and the loop goes on with the next
  request.
\<close>

theorem duplicate_login_reply:
  assumes dup: "fst (login (username request) (password request) (database self)) = LoginDuplicate"
  shows "\<exists>self'.
     run_iteration server_ready self (identity0, request) =
       Inr (self',
            [(identity0,
              \<lparr>reply_username = username request, server = ''FAIL'', auth_key = ''FAIL'',
               ranking = 0,
               response = ''Failed to login: Cannot login twice at the same time.''\<rparr>)])
     \<and> match_requests self' = match_requests self
     \<and> match_limit self' = match_limit self
     \<and> ports_to_use self' = ports_to_use self
     \<and> janitors self' = janitors self
     \<and> entropy self' = entropy self
     \<and> run server_ready self ((identity0, request) # later) =
         (case run server_ready self' later of
            Inl e \<Rightarrow> Inl e
          | Inr (self'', sent') \<Rightarrow>
              Inr (self'',
                   (identity0,
                    \<lparr>reply_username = username request, server = ''FAIL'', auth_key = ''FAIL'',
                     ranking = 0,
                     response = ''Failed to login: Cannot login twice at the same time.''\<rparr>)
                   # sent'))"
proof -
  let ?self' = "self\<lparr>database := snd (login (username request) (password request) (database self))\<rparr>"
  have "run_iteration server_ready self (identity0, request) =
       Inr (?self',
            [(identity0,
              \<lparr>reply_username = username request, server = ''FAIL'', auth_key = ''FAIL'',
               ranking = 0,
               response = ''Failed to login: Cannot login twice at the same time.''\<rparr>)])"
    using run_iteration_duplicate [OF dup, of server_ready identity0]
    by (simp add: fail_reply_def)
  then show ?thesis
    by (intro exI [of _ ?self']) (simp split: sum.splits)
qed

theorem duplicate_login_reply_witness:
  "sent_by (run_iteration (\<lambda>j. True) alice_waiting ([9], request_of ''alice'')) =
     [([9], \<lparr>reply_username = ''alice'', server = ''FAIL'', auth_key = ''FAIL'', ranking = 0,
             response = ''Failed to login: Cannot login twice at the same time.''\<rparr>)]
   \<and> waiting_after (run_iteration (\<lambda>j. True) alice_waiting ([9], request_of ''alice''))
       = [''alice'']"
proof -
  from duplicate_login_reply [OF alice_again, of "\<lambda>j. True" "[9]" "[]"]
  show ?thesis
    by (auto simp: sent_by_def waiting_after_def request_of_def alice_waiting_def fresh_thread_def)
qed

subsection \<open>Tokens in the replies\<close>

lemma run_iteration_not_accepted:
  assumes "\<not> accepted self request"
  shows "\<exists>reason. run_iteration server_ready self (identity0, request) =
           Inr (self\<lparr>database := snd (login (username request) (password request) (database self))\<rparr>,
                [(identity0, fail_reply (username request) reason)])"
proof -
  from assms consider
      "fst (login (username request) (password request) (database self)) = LoginDuplicate"
    | "fst (login (username request) (password request) (database self)) = LoginFail"
    by (auto simp: accepted_def)
  then show ?thesis
  proof cases
    case 1
    from run_iteration_duplicate [OF 1, of server_ready identity0] show ?thesis
      by blast
  next
    case 2
    from run_iteration_wrong_password [OF 2, of server_ready identity0] show ?thesis
      by blast
  qed
qed

lemma login_elsewhere:
  "u \<noteq> username0 \<Longrightarrow> snd (login username0 password0 db) u = db u"
  by (auto simp: login_def split: option.splits)

lemma run_iteration_accepted_Inr:
  assumes ret: "run_iteration server_ready self (identity0, request) = Inr (self', sent)"
      and acc: "accepted self request"
  shows "\<exists>cohort entries p.
           match_requests self @ [(identity0, request, fst (token_hex 32 (entropy self)))]
             = match_requests self' @ rev cohort
           \<and> sent = map (success_reply (hostname self) p entries) cohort
           \<and> entropy self' = snd (token_hex 32 (entropy self))
           \<and> (\<forall>u. u \<noteq> username request \<longrightarrow> database self' u = database self u)
           \<and> database self' (username request) \<noteq> None"
proof -
  from run_iteration_accepted [OF acc, of server_ready identity0] obtain db where
    eq: "run_iteration server_ready self (identity0, request) =
           enqueue server_ready (self\<lparr>database := db\<rparr>) identity0 request"
    and other: "\<forall>u. u \<noteq> username request \<longrightarrow> db u = database self u"
    and here: "db (username request) \<noteq> None"
    by blast
  from ret eq have "enqueue server_ready (self\<lparr>database := db\<rparr>) identity0 request = Inr (self', sent)"
    by simp
  from enqueue_Inr [OF this] other here show ?thesis
    by auto
qed

text \<open>
  C9. An accepted request joins the deque with a token printed from the next 32 random
  bytes, which are then used up, so the token is 64 hexadecimal digits. When every token
  in the deque is such a token, so is every token in the deque afterwards, and every reply
  that is not a failure goes to the identity of a member of the deque and carries the
  token and the name stored with that identity.
\<close>

theorem reply_carries_own_token:
  assumes ret: "run_iteration server_ready self (identity0, request) = Inr (self', sent)"
      and inv: "\<forall>member \<in> set (match_requests self). is_token (snd (snd member))"
  defines "token0 \<equiv> fst (token_hex 32 (entropy self))"
  defines "dq \<equiv> match_requests self @ [(identity0, request, token0)]"
  shows "is_token token0
    \<and> token0 = concat (map (\<lambda>i. hex_byte (entropy self i)) [0..<32])
    \<and> (accepted self request \<longrightarrow>
         (\<exists>cohort entries p.
            dq = match_requests self' @ rev cohort
            \<and> sent = map (success_reply (hostname self) p entries) cohort)
         \<and> (\<forall>i. entropy self' i = entropy self (i + 32)))
    \<and> (\<forall>member \<in> set (match_requests self'). is_token (snd (snd member)))
    \<and> (\<forall>reply \<in> set sent. server (snd reply) \<noteq> ''FAIL'' \<longrightarrow>
         is_token (auth_key (snd reply))
         \<and> (\<exists>req. (fst reply, req, auth_key (snd reply)) \<in> set dq
                \<and> reply_username (snd reply) = username req))"
proof -
  have tok: "is_token token0"
    unfolding token0_def by (rule is_token_token_hex)
  have hex: "token0 = concat (map (\<lambda>i. hex_byte (entropy self i)) [0..<32])"
    by (simp add: token0_def token_hex_def)
  from inv tok have dq_tokens: "\<forall>member \<in> set dq. is_token (snd (snd member))"
    by (simp add: dq_def)
  show ?thesis
  proof (cases "accepted self request")
    case False
    from run_iteration_not_accepted [OF False, of server_ready identity0] ret obtain reason where
      "self' = self\<lparr>database := snd (login (username request) (password request) (database self))\<rparr>"
      and "sent = [(identity0, fail_reply (username request) reason)]"
      by auto
    with False tok hex inv show ?thesis
      by (simp add: fail_reply_def)
  next
    case True
    from run_iteration_accepted_Inr [OF ret True] obtain cohort entries p where
      split: "dq = match_requests self' @ rev cohort"
      and sent: "sent = map (success_reply (hostname self) p entries) cohort"
      and ent: "entropy self' = snd (token_hex 32 (entropy self))"
      by (auto simp: dq_def token0_def)
    from ent have shift: "\<forall>i. entropy self' i = entropy self (i + 32)"
      by (simp add: token_hex_def)
    from split have sub: "set (match_requests self') \<subseteq> set dq" and csub: "set cohort \<subseteq> set dq"
      by auto
    from sub dq_tokens have inv': "\<forall>member \<in> set (match_requests self'). is_token (snd (snd member))"
      by blast
    have replies: "is_token (auth_key (snd reply))
         \<and> (\<exists>req. (fst reply, req, auth_key (snd reply)) \<in> set dq
                \<and> reply_username (snd reply) = username req)"
      if "reply \<in> set sent" for reply
    proof -
      from that sent obtain member where
        m: "member \<in> set cohort" and r: "reply = success_reply (hostname self) p entries member"
        by auto
      from m csub have mdq: "member \<in> set dq"
        by blast
      with dq_tokens have tokm: "is_token (snd (snd member))"
        by blast
      have proj: "fst reply = fst member" "auth_key (snd reply) = snd (snd member)"
        "reply_username (snd reply) = username (fst (snd member))"
        by (simp_all add: r success_reply_def)
      have "(fst member, fst (snd member), snd (snd member)) \<in> set dq"
        using mdq by simp
      then have "\<exists>req. (fst reply, req, auth_key (snd reply)) \<in> set dq
                \<and> reply_username (snd reply) = username req"
        unfolding proj by (intro exI [of _ "fst (snd member)"]) simp
      with tokm show ?thesis
        by (simp add: proj)
    qed
    from tok hex True split sent shift inv' replies show ?thesis
      by blast
  qed
qed

theorem reply_carries_own_token_witness:
  "map (\<lambda>reply. (fst reply, auth_key (snd reply)))
       (sent_by (run_iteration (\<lambda>j. True) alice_waiting ([2], request_of ''bob''))) =
     [([2], ''2222222222222222222222222222222222222222222222222222222222222222''),
      ([1], ''1111111111111111111111111111111111111111111111111111111111111111'')]
   \<and> list_all (\<lambda>reply. is_token (auth_key (snd reply)))
       (sent_by (run_iteration (\<lambda>j. True) alice_waiting ([2], request_of ''bob'')))"
proof -
  from bob_second obtain self' sent where
    ret: "run_iteration (\<lambda>j. True) alice_waiting ([2], request_of ''bob'') = Inr (self', sent)"
    and sent: "sent =
        [([2], \<lparr>reply_username = ''bob'', server = ''localhost:21450'',
                auth_key = ''2222222222222222222222222222222222222222222222222222222222222222'',
                ranking = 1000, response = []\<rparr>),
         ([1], \<lparr>reply_username = ''alice'', server = ''localhost:21450'',
                auth_key = ''1111111111111111111111111111111111111111111111111111111111111111'',
                ranking = 1000, response = []\<rparr>)]"
    by blast
  have "is_token (fst (token_hex 32 example_entropy))"
    by (rule is_token_token_hex)
  then have inv: "\<forall>member \<in> set (match_requests alice_waiting). is_token (snd (snd member))"
    by (simp add: token_hex_example alice_waiting_def)
  from reply_carries_own_token [OF ret inv]
  have "\<forall>reply \<in> set sent. server (snd reply) \<noteq> ''FAIL'' \<longrightarrow> is_token (auth_key (snd reply))"
    by blast
  then have "list_all (\<lambda>reply. is_token (auth_key (snd reply))) sent"
    by (simp add: sent)
  then show ?thesis
    by (simp add: ret sent_by_def) (simp add: sent)
qed

subsection \<open>The case of a username\<close>

lemma lower_Bob: "lower ''Bob'' = ''bob''"
  by (simp add: lower_def lower_char_def char_of_def bit_0)

lemma lower_BOB: "lower ''BOB'' = ''bob''"
  by (simp add: lower_def lower_char_def char_of_def bit_0)

lemma success_server_Cons_not_FAIL: "h @ CHR '':'' # s \<noteq> ''FAIL''"
  using success_server_not_FAIL [of h s] by simp

lemmas mm_eval_fresh =
  run_iteration_def enqueue_def start_match_def login_def set_user_def
  fresh_thread_def request_of_def database_entries_def
  get_multi_def str_int_def str_nat.simps digit_char_def match_server_args_factory_def
  default_ranking_def fail_reply_def Let_def pop_players_eq
  token_hex_example token_hex_example2

text \<open>
  C2, as amended. It is \<^verbatim>\<open>request_game\<close>, on the client, that lowercases the username,
  before hashing the password with it and before sending: two calls whose usernames differ
  only in letter case send the same request. The matchmaker uses the username of the
  request as it arrives: a turn of its loop touches no user record but the one with
  exactly that name, a failure reply names exactly that name to the sender, and an
  accepted request has a record under exactly that name and joins the deque unchanged,
  its reply carrying the name stored with it.
\<close>

theorem client_lowercases_username:
  "username (request_game_request u p) = lower u
   \<and> password (request_game_request u p) = hash_password (lower u) p
   \<and> (lower u1 = lower u2 \<longrightarrow> request_game_request u1 p = request_game_request u2 p)
   \<and> (\<forall>self' sent.
        run_iteration server_ready self (identity0, request) = Inr (self', sent) \<longrightarrow>
          (\<forall>name0. name0 \<noteq> username request \<longrightarrow> database self' name0 = database self name0)
          \<and> (\<forall>reply \<in> set sent. server (snd reply) = ''FAIL'' \<longrightarrow>
                fst reply = identity0 \<and> reply_username (snd reply) = username request)
          \<and> (accepted self request \<longrightarrow>
                database self' (username request) \<noteq> None
                \<and> (\<exists>cohort entries port0.
                      match_requests self @
                        [(identity0, request, fst (token_hex 32 (entropy self)))]
                        = match_requests self' @ rev cohort
                      \<and> sent = map (success_reply (hostname self) port0 entries) cohort)))"
proof (intro conjI allI impI)
  show "username (request_game_request u p) = lower u"
    by (simp add: request_game_request_def Let_def)
  show "password (request_game_request u p) = hash_password (lower u) p"
    by (simp add: request_game_request_def Let_def)
  show "request_game_request u1 p = request_game_request u2 p" if "lower u1 = lower u2"
    using that by (simp add: request_game_request_def Let_def)
next
  fix self' sent name0
  assume ret: "run_iteration server_ready self (identity0, request) = Inr (self', sent)"
    and other: "name0 \<noteq> username request"
  show "database self' name0 = database self name0"
  proof (cases "accepted self request")
    case True
    from run_iteration_accepted_Inr [OF ret True] other show ?thesis
      by blast
  next
    case False
    from run_iteration_not_accepted [OF False, of server_ready identity0] ret
    have "database self' = snd (login (username request) (password request) (database self))"
      by auto
    with other show ?thesis
      by (simp add: login_elsewhere)
  qed
next
  fix self' sent
  assume ret: "run_iteration server_ready self (identity0, request) = Inr (self', sent)"
  show "\<forall>reply \<in> set sent. server (snd reply) = ''FAIL'' \<longrightarrow>
          fst reply = identity0 \<and> reply_username (snd reply) = username request"
  proof (cases "accepted self request")
    case True
    from run_iteration_accepted_Inr [OF ret True] obtain cohort entries port0 where
      "sent = map (success_reply (hostname self) port0 entries) cohort"
      by blast
    then show ?thesis
      by (auto simp: success_reply_def success_server_Cons_not_FAIL)
  next
    case False
    from run_iteration_not_accepted [OF False, of server_ready identity0] ret
    obtain reason where "sent = [(identity0, fail_reply (username request) reason)]"
      by auto
    then show ?thesis
      by (simp add: fail_reply_def)
  qed
next
  fix self' sent
  assume ret: "run_iteration server_ready self (identity0, request) = Inr (self', sent)"
    and acc: "accepted self request"
  from run_iteration_accepted_Inr [OF ret acc]
  show "database self' (username request) \<noteq> None"
    by blast
  from run_iteration_accepted_Inr [OF ret acc]
  show "\<exists>cohort entries port0.
          match_requests self @ [(identity0, request, fst (token_hex 32 (entropy self)))]
            = match_requests self' @ rev cohort
          \<and> sent = map (success_reply (hostname self) port0 entries) cohort"
    by blast
qed

theorem client_lowercases_username_witness:
  "username (request_game_request ''Bob'' ''secret'') = ''bob''
   \<and> request_game_request ''Bob'' ''secret'' = request_game_request ''BOB'' ''secret''
   \<and> database_after (run_iteration (\<lambda>j. True) alice_waiting ([2], request_of ''bob'')) ''alice''
       = database alice_waiting ''alice''
   \<and> database_after (run_iteration (\<lambda>j. True) alice_waiting ([2], request_of ''bob'')) ''bob''
       \<noteq> None"
proof -
  from bob_second obtain self' sent where
    ret: "run_iteration (\<lambda>j. True) alice_waiting ([2], request_of ''bob'') = Inr (self', sent)"
    by blast
  have same: "lower ''Bob'' = lower ''BOB''"
    by (simp add: lower_Bob lower_BOB)
  have other: "''alice'' \<noteq> username (request_of ''bob'')"
    by (simp add: request_of_def)
  note inst = client_lowercases_username
    [of "''Bob''" "''secret''" "''Bob''" "''BOB''" "\<lambda>j. True" alice_waiting "[2]" "request_of ''bob''"]
  from inst have "username (request_game_request ''Bob'' ''secret'') = ''bob''"
    by (simp add: lower_Bob)
  moreover from inst same
  have "request_game_request ''Bob'' ''secret'' = request_game_request ''BOB'' ''secret''"
    by blast
  moreover from inst ret other have "database self' ''alice'' = database alice_waiting ''alice''"
    by blast
  moreover from inst ret accepted_bob have "database self' (username (request_of ''bob'')) \<noteq> None"
    by blast
  then have "database self' ''bob'' \<noteq> None"
    by (simp add: request_of_def)
  moreover have "database_after (run_iteration (\<lambda>j. True) alice_waiting ([2], request_of ''bob''))
      = database self'"
    by (simp add: ret database_after_def)
  ultimately show ?thesis
    by simp
qed

text \<open>
  The claim as stated fails on the matchmaker: the name \<^verbatim>\<open>Bob\<close> arrives, a record
  \<^verbatim>\<open>Bob\<close> is made and none for \<^verbatim>\<open>bob\<close>, and \<^verbatim>\<open>Bob\<close> waits under that name; a
  request of \<^verbatim>\<open>bob\<close> after it is no duplicate login, and the two start a match.
\<close>

theorem matchmaker_lowercases_counterexample:
  "lower ''Bob'' = ''bob''
   \<and> database_after (run_iteration (\<lambda>j. True) (fresh_thread 2) ([1], request_of ''Bob'')) ''bob''
       = None
   \<and> database_after (run_iteration (\<lambda>j. True) (fresh_thread 2) ([1], request_of ''Bob'')) ''Bob''
       \<noteq> None
   \<and> waiting_after (run_iteration (\<lambda>j. True) (fresh_thread 2) ([1], request_of ''Bob''))
       = [''Bob'']
   \<and> map (\<lambda>reply. (reply_username (snd reply), server (snd reply)))
        (sent_by (run (\<lambda>j. True) (fresh_thread 2)
                   [([1], request_of ''Bob''), ([2], request_of ''bob'')]))
       = [(''bob'', ''localhost:21450''), (''Bob'', ''localhost:21450'')]"
  by (simp add: lower_Bob mm_eval_fresh database_after_def waiting_after_def sent_by_def)

section \<open>The match janitor\<close>

lemma logoff_apply:
  "logoff u db v = (if v = u then map_option (\<lambda>row. row\<lparr>row_logged_in := False\<rparr>) (db v) else db v)"
  by (simp add: logoff_def split: option.splits)

lemma fold_logoff_apply:
  "fold logoff users db v =
     (if v \<in> set users then map_option (\<lambda>row. row\<lparr>row_logged_in := False\<rparr>) (db v) else db v)"
proof (induction users arbitrary: db)
  case Nil
  then show ?case by simp
next
  case (Cons u users)
  have "fold logoff (u # users) db v = fold logoff users (logoff u db) v"
    by simp
  also have "\<dots> = (if v \<in> set users
      then map_option (\<lambda>row. row\<lparr>row_logged_in := False\<rparr>) (logoff u db v)
      else logoff u db v)"
    by (rule Cons.IH)
  also have "\<dots> = (if v \<in> set (u # users)
      then map_option (\<lambda>row. row\<lparr>row_logged_in := False\<rparr>) (db v)
      else db v)"
    unfolding logoff_apply by (cases "db v") auto
  finally show ?case .
qed

text \<open>
  C3, as amended. When the start of the match server returns, \<^verbatim>\<open>run\<close> reaches its
  cleanup and releases each of the three resources once: the port is put at the end of the
  free-port queue, once more than it was there; every user of the cohort is logged off, the
  other fields of the record and the other users being left alone; and the semaphore's
  counter goes up by one. The thread ends without an exception.
\<close>

theorem janitor_releases_on_return:
  "\<exists>sh'. MatchProcessJanitor_run None self sh = (None, sh')
     \<and> ports_to_use sh' = ports_to_use sh @ [port (janitor_args self)]
     \<and> count_list (ports_to_use sh') (port (janitor_args self))
         = count_list (ports_to_use sh) (port (janitor_args self)) + 1
     \<and> match_limit sh' = match_limit sh + 1
     \<and> (\<forall>u \<in> set (player_list self).
           database sh' u = map_option (\<lambda>row. row\<lparr>row_logged_in := False\<rparr>) (database sh u))
     \<and> (\<forall>u. u \<notin> set (player_list self) \<longrightarrow> database sh' u = database sh u)"
  by (simp add: MatchProcessJanitor_run_def Let_def fold_logoff_apply)

theorem janitor_releases_on_return_witness:
  "ports_to_use (snd (MatchProcessJanitor_run None alice_janitor busy_shared)) = [21451, 21450]
   \<and> match_limit (snd (MatchProcessJanitor_run None alice_janitor busy_shared)) = 1
   \<and> map_option row_logged_in
        (database (snd (MatchProcessJanitor_run None alice_janitor busy_shared)) ''alice'')
       = Some False"
proof -
  from janitor_releases_on_return [of alice_janitor busy_shared] obtain sh' where
    "MatchProcessJanitor_run None alice_janitor busy_shared = (None, sh')"
    and "ports_to_use sh' = ports_to_use busy_shared @ [port (janitor_args alice_janitor)]"
    and "match_limit sh' = match_limit busy_shared + 1"
    and "\<forall>u \<in> set (player_list alice_janitor).
           database sh' u = map_option (\<lambda>row. row\<lparr>row_logged_in := False\<rparr>) (database busy_shared u)"
    by blast
  then show ?thesis
    by (simp add: alice_janitor_def busy_shared_def match_server_args_factory_def)
qed

text \<open>
  The claim as stated fails on the path of an exception: when the start of the match
  server raises, \<^verbatim>\<open>run\<close> ends there; the port is not back in the queue, \<^verbatim>\<open>alice\<close> is
  still logged in and the semaphore's counter is still 0.
\<close>

theorem janitor_exception_counterexample:
  "fst (MatchProcessJanitor_run (Some OSError) alice_janitor busy_shared) = Some OSError
   \<and> ports_to_use (snd (MatchProcessJanitor_run (Some OSError) alice_janitor busy_shared))
       = [21451]
   \<and> match_limit (snd (MatchProcessJanitor_run (Some OSError) alice_janitor busy_shared)) = 0
   \<and> map_option row_logged_in
        (database (snd (MatchProcessJanitor_run (Some OSError) alice_janitor busy_shared)) ''alice'')
       = Some True"
  by (simp add: MatchProcessJanitor_run_def alice_janitor_def busy_shared_def)

section \<open>The client adapter\<close>

subsection \<open>Waiting for the turn\<close>

lemma wait_for_turn_ready:
  assumes "\<not> waiting (player c)"
  shows "wait_for_turn c pulls = Some (Inr (c, pulls))"
  using assms by (cases pulls) (simp_all add: wait_for_turn.simps waiting_def)

lemma wait_for_turn_step:
  assumes "waiting (player c)"
  shows "wait_for_turn c (s # pulls) =
           (case pulled_player s of
              None \<Rightarrow> Some (Inl AttributeError)
            | Some p \<Rightarrow>
                wait_for_turn (c\<lparr>player := p, server_states := pulled_server_states s\<rparr>) pulls)"
  using assms by (simp add: wait_for_turn.simps waiting_def)

text \<open>
  When the loop ends, the client holds a record with \<open>turn\<close> set and
  \<open>ready_for_action_to_be_taken\<close> cleared. If it took pulls at all, that record and
  the server state are those of the last pull taken, and every pull before it brought a
  record that still asked to wait.
\<close>

lemma wait_for_turn_Inr:
  assumes "wait_for_turn c pulls = Some (Inr (c', rest))"
  shows "\<not> waiting (player c')
    \<and> pushed c' = pushed c
    \<and> player_deleted c' = player_deleted c
    \<and> remote_closed c' = remote_closed c
    \<and> running c' = running c
    \<and> (\<exists>used. pulls = used @ rest
          \<and> (used = [] \<longrightarrow> c' = c)
          \<and> (used \<noteq> [] \<longrightarrow>
                pulled_player (last used) = Some (player c')
                \<and> server_states c' = pulled_server_states (last used)
                \<and> waiting (player c))
          \<and> (\<forall>s \<in> set (butlast used). \<exists>p. pulled_player s = Some p \<and> waiting p))"
  using assms
proof (induction pulls arbitrary: c)
  case Nil
  then show ?case
    by (auto simp: wait_for_turn.simps waiting_def split: if_splits)
next
  case (Cons s pulls)
  show ?case
  proof (cases "waiting (player c)")
    case False
    with Cons.prems have "c' = c" and "rest = s # pulls"
      by (simp_all add: wait_for_turn_ready)
    with False show ?thesis
      by auto
  next
    case True
    with Cons.prems obtain p where
      p: "pulled_player s = Some p" and
      rec: "wait_for_turn (c\<lparr>player := p, server_states := pulled_server_states s\<rparr>) pulls
              = Some (Inr (c', rest))"
      by (auto simp: wait_for_turn_step split: option.splits)
    let ?c1 = "c\<lparr>player := p, server_states := pulled_server_states s\<rparr>"
    from Cons.IH [OF rec] obtain used where
      fin: "\<not> waiting (player c')" and
      same: "pushed c' = pushed c" "player_deleted c' = player_deleted c"
        "remote_closed c' = remote_closed c" "running c' = running c" and
      used: "pulls = used @ rest" and
      none: "used = [] \<longrightarrow> c' = ?c1" and
      some: "used \<noteq> [] \<longrightarrow> pulled_player (last used) = Some (player c')
                \<and> server_states c' = pulled_server_states (last used) \<and> waiting p" and
      before: "\<forall>s \<in> set (butlast used). \<exists>p. pulled_player s = Some p \<and> waiting p"
      by auto
    have "s # pulls = (s # used) @ rest"
      by (simp add: used)
    moreover have "pulled_player (last (s # used)) = Some (player c')
        \<and> server_states c' = pulled_server_states (last (s # used))"
      using none some p by (cases "used = []") simp_all
    moreover have "\<forall>s' \<in> set (butlast (s # used)). \<exists>p. pulled_player s' = Some p \<and> waiting p"
      using before some p by (cases "used = []") auto
    ultimately show ?thesis
      using fin same True by (intro conjI exI [of _ "s # used"]) simp_all
  qed
qed

text \<open>The loop does end when a pull brings such a record, after records that are there.\<close>

lemma wait_for_turn_total:
  assumes "\<forall>s \<in> set used. \<exists>p. pulled_player s = Some p \<and> waiting p"
      and "pulled_player s = Some p" and "\<not> waiting p" and "waiting (player c)"
  shows "wait_for_turn c (used @ s # rest) =
           Some (Inr (c\<lparr>player := p, server_states := pulled_server_states s\<rparr>, rest))"
  using assms
proof (induction used arbitrary: c)
  case Nil
  then show ?case
    by (simp add: wait_for_turn_step wait_for_turn_ready)
next
  case (Cons s0 used)
  from Cons.prems obtain p0 where p0: "pulled_player s0 = Some p0" "waiting p0"
    by auto
  let ?c1 = "c\<lparr>player := p0, server_states := pulled_server_states s0\<rparr>"
  have "wait_for_turn ?c1 (used @ s # rest) =
          Some (Inr (?c1\<lparr>player := p, server_states := pulled_server_states s\<rparr>, rest))"
    using Cons.prems p0 by (intro Cons.IH) simp_all
  with Cons.prems p0 show ?case
    by (simp add: wait_for_turn_step)
qed

subsection \<open>The answer to \<^verbatim>\<open>step\<close>\<close>

lemma report_step_eq:
  assumes "server_states c = st # others"
  shows "report_step loads names c pulls =
           (if terminal st then
              (case loads (winners st) of
                 Inl e \<Rightarrow> Inl e
               | Inr w0 \<Rightarrow>
                   Inr ((observations_of names (player c), reward_from_last_turn (player c),
                         True, Some w0),
                        c\<lparr>player := (player c)\<lparr>acknowledges_game_over := True\<rparr>,
                          pushed := pushed c @ [(player c)\<lparr>acknowledges_game_over := True\<rparr>]\<rparr>,
                        pulls))
            else Inr ((observations_of names (player c), reward_from_last_turn (player c),
                       False, None), c, pulls))"
  using assms
  by (simp add: report_step_def game_is_terminal_def observations_of_def Let_def
      split: sum.splits)

lemma report_step_empty:
  assumes "server_states c = []"
  shows "report_step loads names c pulls = Inl IndexError"
  using assms by (simp add: report_step_def game_is_terminal_def)

lemma report_step_Inr:
  assumes "report_step loads names c pulls = Inr ((obs, reward, over, w), c', rest)"
  shows "\<exists>st others. server_states c = st # others
    \<and> obs = observations_of names (player c)
    \<and> reward = reward_from_last_turn (player c)
    \<and> over = terminal st
    \<and> rest = pulls
    \<and> (if terminal st
        then (\<exists>w0. loads (winners st) = Inr w0 \<and> w = Some w0)
             \<and> c' = c\<lparr>player := (player c)\<lparr>acknowledges_game_over := True\<rparr>,
                      pushed := pushed c @ [(player c)\<lparr>acknowledges_game_over := True\<rparr>]\<rparr>
        else w = None \<and> c' = c)"
proof (cases "server_states c")
  case Nil
  with assms show ?thesis
    by (simp add: report_step_empty)
next
  case (Cons st others)
  from assms show ?thesis
    unfolding report_step_eq [OF Cons]
    by (auto simp: Cons split: if_splits sum.splits)
qed

lemma game_is_terminal_Inr:
  "game_is_terminal c = Inr over \<longleftrightarrow> (\<exists>st others. server_states c = st # others \<and> terminal st = over)"
  by (auto simp: game_is_terminal_def split: list.splits)

text \<open>The step while the game goes on, when the pulls bring the next turn.\<close>

lemma step_forward:
  assumes live: "running c" "\<not> remote_closed c"
      and going: "game_is_terminal c = Inr False"
      and before: "\<forall>s0 \<in> set used. \<exists>p0. pulled_player s0 = Some p0 \<and> waiting p0"
      and s: "pulled_player s = Some p" "\<not> waiting p" "pulled_server_states s = st # others"
  shows "ClientNetworkEnv_step loads names c a (used @ s # rest) =
           Some (report_step loads names
             (c\<lparr>player := p, server_states := st # others,
                pushed := pushed c @
                  [(player c)\<lparr>action := a, ready_for_action_to_be_taken := True\<rparr>]\<rparr>)
             rest)"
proof -
  let ?p1 = "(player c)\<lparr>action := a, ready_for_action_to_be_taken := True\<rparr>"
  let ?c1 = "c\<lparr>player := ?p1, pushed := pushed c @ [?p1]\<rparr>"
  have "waiting (player ?c1)"
    by (simp add: waiting_def)
  from wait_for_turn_total [OF before s(1) s(2) this, of rest]
  have "wait_for_turn ?c1 (used @ s # rest) =
          Some (Inr (?c1\<lparr>player := p, server_states := pulled_server_states s\<rparr>, rest))" .
  moreover have "?c1\<lparr>player := p, server_states := pulled_server_states s\<rparr> =
      c\<lparr>player := p, server_states := st # others, pushed := pushed c @ [?p1]\<rparr>"
    by (simp add: s(3))
  ultimately have "wait_for_turn ?c1 (used @ s # rest) =
      Some (Inr (c\<lparr>player := p, server_states := st # others, pushed := pushed c @ [?p1]\<rparr>,
                 rest))"
    by (simp only:)
  with live going show ?thesis
    by (simp add: ClientNetworkEnv_step_def client_app_step_def Let_def del: client.update_convs)
qed

text \<open>The step while the game goes on returns only after such a pull.\<close>

lemma step_backward:
  assumes live: "running c" "\<not> remote_closed c"
      and going: "game_is_terminal c = Inr False"
      and ret: "ClientNetworkEnv_step loads names c a pulls =
                  Some (Inr ((obs, reward, over, w), c', rest))"
  shows "\<exists>used s p st others.
           pulls = used @ s # rest
           \<and> (\<forall>s0 \<in> set used. \<exists>p0. pulled_player s0 = Some p0 \<and> waiting p0)
           \<and> pulled_player s = Some p \<and> turn p \<and> \<not> ready_for_action_to_be_taken p
           \<and> pulled_server_states s = st # others
           \<and> obs = observations_of names p
           \<and> reward = reward_from_last_turn p
           \<and> over = terminal st
           \<and> (if terminal st then (\<exists>w0. loads (winners st) = Inr w0 \<and> w = Some w0)
               else w = None)
           \<and> pushed c' = pushed c @
               [(player c)\<lparr>action := a, ready_for_action_to_be_taken := True\<rparr>] @
               (if terminal st then [p\<lparr>acknowledges_game_over := True\<rparr>] else [])"
proof -
  let ?p1 = "(player c)\<lparr>action := a, ready_for_action_to_be_taken := True\<rparr>"
  let ?c1 = "c\<lparr>player := ?p1, pushed := pushed c @ [?p1]\<rparr>"
  from live going ret obtain c2 rest2 where
    w: "wait_for_turn ?c1 pulls = Some (Inr (c2, rest2))" and
    r: "report_step loads names c2 rest2 = Inr ((obs, reward, over, w), c', rest)"
    by (auto simp: ClientNetworkEnv_step_def client_app_step_def Let_def
        split: option.splits sum.splits)
  from wait_for_turn_Inr [OF w] obtain used0 where
    turn: "\<not> waiting (player c2)" and
    pushed2: "pushed c2 = pushed c @ [?p1]" and
    used0: "pulls = used0 @ rest2" and
    none: "used0 = [] \<longrightarrow> c2 = ?c1" and
    some: "used0 \<noteq> [] \<longrightarrow> pulled_player (last used0) = Some (player c2)
             \<and> server_states c2 = pulled_server_states (last used0)" and
    before: "\<forall>s \<in> set (butlast used0). \<exists>p. pulled_player s = Some p \<and> waiting p"
    by auto
  have "used0 \<noteq> []"
  proof
    assume "used0 = []"
    with none have "c2 = ?c1" by simp
    with turn show False by (simp add: waiting_def)
  qed
  then have split: "used0 = butlast used0 @ [last used0]"
    by simp
  from report_step_Inr [OF r] obtain st others where
    st: "server_states c2 = st # others" and
    obs: "obs = observations_of names (player c2)" and
    reward: "reward = reward_from_last_turn (player c2)" and
    over: "over = terminal st" and
    rest: "rest = rest2" and
    fin: "if terminal st
          then (\<exists>w0. loads (winners st) = Inr w0 \<and> w = Some w0)
               \<and> c' = c2\<lparr>player := (player c2)\<lparr>acknowledges_game_over := True\<rparr>,
                         pushed := pushed c2 @ [(player c2)\<lparr>acknowledges_game_over := True\<rparr>]\<rparr>
          else w = None \<and> c' = c2"
    by blast
  show ?thesis
  proof (intro exI [of _ "butlast used0"] exI [of _ "last used0"] exI [of _ "player c2"]
      exI [of _ st] exI [of _ others] conjI)
    from used0 split rest show "pulls = butlast used0 @ last used0 # rest"
      by (metis append.assoc append_Cons append_Nil)
    from before show "\<forall>s0 \<in> set (butlast used0). \<exists>p0. pulled_player s0 = Some p0 \<and> waiting p0" .
    from some \<open>used0 \<noteq> []\<close> show "pulled_player (last used0) = Some (player c2)"
      by simp
    from turn show "turn (player c2)" and "\<not> ready_for_action_to_be_taken (player c2)"
      by (simp_all add: waiting_def)
    from some \<open>used0 \<noteq> []\<close> st show "pulled_server_states (last used0) = st # others"
      by simp
    from obs show "obs = observations_of names (player c2)" .
    from reward show "reward = reward_from_last_turn (player c2)" .
    from over show "over = terminal st" .
    from fin show "if terminal st then (\<exists>w0. loads (winners st) = Inr w0 \<and> w = Some w0)
               else w = None"
      by (simp split: if_splits)
    from fin pushed2 show "pushed c' = pushed c @ [?p1] @
               (if terminal st then [(player c2)\<lparr>acknowledges_game_over := True\<rparr>] else [])"
      by (auto split: if_splits)
  qed
qed

subsection \<open>A step while the game goes on\<close>

text \<open>
  C7. A \<^verbatim>\<open>step(action)\<close> made while the game is not terminal commits the action
  together with \<open>ready_for_action_to_be_taken = True\<close> in one commit and then takes
  pulls. When the pulls bring, after records that still ask to wait, a record with
  \<open>turn\<close> set and \<open>ready_for_action_to_be_taken\<close> cleared, the step returns the
  observations and the reward of that record, the \<open>terminal\<close> flag pulled with it and
  the winners, and on \<open>terminal\<close> it has committed \<open>acknowledges_game_over = True\<close>
  before. And whenever the step returns, it has taken its pulls up to such a record and
  the tuple and the commits are those.
\<close>

theorem step_waits_for_next_turn:
  fixes c :: "'obs client" and loads :: "bytes \<Rightarrow> error + 'w"
  assumes live: "running c" "\<not> remote_closed c"
      and going: "game_is_terminal c = Inr False"
  shows
   "(\<forall>used s p st others rest.
        (\<forall>s0 \<in> set used. \<exists>p0. pulled_player s0 = Some p0 \<and> waiting p0)
        \<and> pulled_player s = Some p \<and> turn p \<and> \<not> ready_for_action_to_be_taken p
        \<and> pulled_server_states s = st # others \<longrightarrow>
        ClientNetworkEnv_step loads names c a (used @ s # rest) =
          (if terminal st then
             (case loads (winners st) of
                Inl e \<Rightarrow> Some (Inl e)
              | Inr w0 \<Rightarrow>
                  Some (Inr ((observations_of names p, reward_from_last_turn p, True, Some w0),
                    c\<lparr>player := p\<lparr>acknowledges_game_over := True\<rparr>,
                      server_states := st # others,
                      pushed := pushed c @
                        [(player c)\<lparr>action := a, ready_for_action_to_be_taken := True\<rparr>,
                         p\<lparr>acknowledges_game_over := True\<rparr>]\<rparr>,
                    rest)))
           else
             Some (Inr ((observations_of names p, reward_from_last_turn p, False, None),
               c\<lparr>player := p, server_states := st # others,
                 pushed := pushed c @
                   [(player c)\<lparr>action := a, ready_for_action_to_be_taken := True\<rparr>]\<rparr>,
               rest))))
    \<and> (\<forall>obs reward over w c' rest.
          ClientNetworkEnv_step loads names c a pulls =
            Some (Inr ((obs, reward, over, w), c', rest)) \<longrightarrow>
          (\<exists>used s p st others.
             pulls = used @ s # rest
             \<and> (\<forall>s0 \<in> set used. \<exists>p0. pulled_player s0 = Some p0 \<and> waiting p0)
             \<and> pulled_player s = Some p \<and> turn p \<and> \<not> ready_for_action_to_be_taken p
             \<and> pulled_server_states s = st # others
             \<and> obs = observations_of names p
             \<and> reward = reward_from_last_turn p
             \<and> over = terminal st
             \<and> (if terminal st then (\<exists>w0. loads (winners st) = Inr w0 \<and> w = Some w0)
                 else w = None)
             \<and> pushed c' = pushed c @
                 [(player c)\<lparr>action := a, ready_for_action_to_be_taken := True\<rparr>] @
                 (if terminal st then [p\<lparr>acknowledges_game_over := True\<rparr>] else [])))"
proof (intro conjI allI impI)
  fix used :: "'obs snapshot list" and s :: "'obs snapshot" and p st others
    and rest :: "'obs snapshot list"
  assume h: "(\<forall>s0 \<in> set used. \<exists>p0. pulled_player s0 = Some p0 \<and> waiting p0)
        \<and> pulled_player s = Some p \<and> turn p \<and> \<not> ready_for_action_to_be_taken p
        \<and> pulled_server_states s = st # others"
  then have before: "\<forall>s0 \<in> set used. \<exists>p0. pulled_player s0 = Some p0 \<and> waiting p0"
    and s: "pulled_player s = Some p" "\<not> waiting p" "pulled_server_states s = st # others"
    by (simp_all add: waiting_def)
  let ?c2 = "c\<lparr>player := p, server_states := st # others,
                pushed := pushed c @
                  [(player c)\<lparr>action := a, ready_for_action_to_be_taken := True\<rparr>]\<rparr>"
  have st: "server_states ?c2 = st # others"
    by simp
  show "ClientNetworkEnv_step loads names c a (used @ s # rest) =
          (if terminal st then
             (case loads (winners st) of
                Inl e \<Rightarrow> Some (Inl e)
              | Inr w0 \<Rightarrow>
                  Some (Inr ((observations_of names p, reward_from_last_turn p, True, Some w0),
                    c\<lparr>player := p\<lparr>acknowledges_game_over := True\<rparr>,
                      server_states := st # others,
                      pushed := pushed c @
                        [(player c)\<lparr>action := a, ready_for_action_to_be_taken := True\<rparr>,
                         p\<lparr>acknowledges_game_over := True\<rparr>]\<rparr>,
                    rest)))
           else
             Some (Inr ((observations_of names p, reward_from_last_turn p, False, None),
               c\<lparr>player := p, server_states := st # others,
                 pushed := pushed c @
                   [(player c)\<lparr>action := a, ready_for_action_to_be_taken := True\<rparr>]\<rparr>,
               rest)))"
    unfolding step_forward [OF live going before s] report_step_eq [OF st]
    by (simp split: sum.splits)
next
  fix obs reward over w c' rest
  assume "ClientNetworkEnv_step loads names c a pulls =
            Some (Inr ((obs, reward, over, w), c', rest))"
  from step_backward [OF live going this]
  show "\<exists>used s p st others.
             pulls = used @ s # rest
             \<and> (\<forall>s0 \<in> set used. \<exists>p0. pulled_player s0 = Some p0 \<and> waiting p0)
             \<and> pulled_player s = Some p \<and> turn p \<and> \<not> ready_for_action_to_be_taken p
             \<and> pulled_server_states s = st # others
             \<and> obs = observations_of names p
             \<and> reward = reward_from_last_turn p
             \<and> over = terminal st
             \<and> (if terminal st then (\<exists>w0. loads (winners st) = Inr w0 \<and> w = Some w0)
                 else w = None)
             \<and> pushed c' = pushed c @
                 [(player c)\<lparr>action := a, ready_for_action_to_be_taken := True\<rparr>] @
                 (if terminal st then [p\<lparr>acknowledges_game_over := True\<rparr>] else [])" .
qed

lemma example_going: "game_is_terminal (example_client False) = Inr False"
  by (simp add: game_is_terminal_def example_client_def example_state_def)

lemma example_live: "running (example_client over)" "\<not> remote_closed (example_client over)"
  by (simp_all add: example_client_def)

theorem step_waits_for_next_turn_witness:
  "(\<exists>obs c'. ClientNetworkEnv_step example_loads [''x''] (example_client False) ''go''
                 example_pulls = Some (Inr ((obs, 1, False, None), c', []))
             \<and> obs ''x'' = Some 5
             \<and> map action (pushed c') = [''go'']
             \<and> map ready_for_action_to_be_taken (pushed c') = [True])
   \<and> (\<exists>obs c'. ClientNetworkEnv_step example_loads [''x''] (example_client False) ''go''
                 [example_last_pull] = Some (Inr ((obs, 1, True, Some [7]), c', []))
             \<and> map acknowledges_game_over (pushed c') = [False, True])
   \<and> (\<exists>used s p. example_pulls = used @ [s]
             \<and> pulled_player s = Some p \<and> turn p \<and> \<not> ready_for_action_to_be_taken p)"
proof -
  note fwd = step_waits_for_next_turn [OF example_live [of False] example_going,
      THEN conjunct1, rule_format]
  note bwd = step_waits_for_next_turn [OF example_live [of False] example_going,
      THEN conjunct2, rule_format]
  let ?s1 = "\<lparr>pulled_player =
         Some (example_player\<lparr>action := ''go'', ready_for_action_to_be_taken := True\<rparr>),
       pulled_server_states = [example_state False]\<rparr>"
  let ?p2 = "example_player\<lparr>action := ''go'', reward_from_last_turn := 1,
                 dimension := (\<lambda>d. 5)\<rparr>"
  let ?s2 = "\<lparr>pulled_player = Some ?p2, pulled_server_states = [example_state False]\<rparr>"
  have h1: "(\<forall>s0 \<in> set [?s1]. \<exists>p0. pulled_player s0 = Some p0 \<and> waiting p0)
      \<and> pulled_player ?s2 = Some ?p2 \<and> turn ?p2 \<and> \<not> ready_for_action_to_be_taken ?p2
      \<and> pulled_server_states ?s2 = example_state False # []"
    by (simp add: waiting_def example_player_def)
  have a: "\<exists>obs c'. ClientNetworkEnv_step example_loads [''x''] (example_client False) ''go''
                 example_pulls = Some (Inr ((obs, 1, False, None), c', []))
             \<and> obs ''x'' = Some 5
             \<and> map action (pushed c') = [''go'']
             \<and> map ready_for_action_to_be_taken (pushed c') = [True]"
    using fwd [OF h1, of example_loads "[''x'']" "''go''" "[]"]
    by (simp add: example_pulls_def example_state_def observations_of_def example_client_def)
  let ?p3 = "example_player\<lparr>action := ''go'', reward_from_last_turn := 1\<rparr>"
  let ?s3 = "\<lparr>pulled_player = Some ?p3, pulled_server_states = [example_state True]\<rparr>"
  have h2: "(\<forall>s0 \<in> set []. \<exists>p0. pulled_player s0 = Some p0 \<and> waiting p0)
      \<and> pulled_player ?s3 = Some ?p3 \<and> turn ?p3
      \<and> \<not> ready_for_action_to_be_taken ?p3
      \<and> pulled_server_states ?s3 = example_state True # []"
    by (simp add: example_player_def)
  have b: "\<exists>obs c'. ClientNetworkEnv_step example_loads [''x''] (example_client False) ''go''
                 [example_last_pull] = Some (Inr ((obs, 1, True, Some [7]), c', []))
             \<and> map acknowledges_game_over (pushed c') = [False, True]"
    using fwd [OF h2, of example_loads "[''x'']" "''go''" "[]"]
    by (simp add: example_last_pull_def example_state_def example_loads_def
        example_client_def example_player_def)
  from a obtain obs c' where
    "ClientNetworkEnv_step example_loads [''x''] (example_client False) ''go'' example_pulls
       = Some (Inr ((obs, 1, False, None), c', []))"
    by blast
  from bwd [OF this] have c: "\<exists>used s p. example_pulls = used @ [s]
             \<and> pulled_player s = Some p \<and> turn p \<and> \<not> ready_for_action_to_be_taken p"
    by blast
  from a b c show ?thesis
    by blast
qed

subsection \<open>A step after the end of the game\<close>

lemma step_winners_None:
  assumes "ClientNetworkEnv_step loads names c a pulls =
             Some (Inr ((obs, reward, over, w), c', rest))"
      and "\<not> over"
  shows "w = None"
proof -
  from assms(1) obtain c2 pulls2 where
    "report_step loads names c2 pulls2 = Inr ((obs, reward, over, w), c', rest)"
    by (auto simp: ClientNetworkEnv_step_def client_app_step_def Let_def
        split: if_splits option.splits sum.splits)
  from report_step_Inr [OF this] assms(2) show ?thesis
    by (auto split: if_splits)
qed

text \<open>
  C10. When the checked-out \<^verbatim>\<open>ServerState\<close> record already shows \<open>terminal\<close>, a step
  writes no action, does not set \<open>ready_for_action_to_be_taken\<close> and takes no pull: it
  answers at once with the observation fields and the reward of the record it holds,
  \<open>terminal = True\<close> and the deserialized winners, after the one commit of
  \<open>acknowledges_game_over = True\<close>. And whenever a step answers with
  \<open>terminal = False\<close>, the winners are \<open>None\<close>.
\<close>

theorem step_after_terminal:
  fixes c :: "'obs client" and loads :: "bytes \<Rightarrow> error + 'w"
  assumes live: "running c" "\<not> remote_closed c"
      and over: "server_states c = st # others" "terminal st"
      and winners0: "loads (winners st) = Inr w0"
  shows "ClientNetworkEnv_step loads names c a pulls =
           Some (Inr ((observations_of names (player c), reward_from_last_turn (player c),
                       True, Some w0),
                      c\<lparr>player := (player c)\<lparr>acknowledges_game_over := True\<rparr>,
                        pushed := pushed c @ [(player c)\<lparr>acknowledges_game_over := True\<rparr>]\<rparr>,
                      pulls))
     \<and> (\<forall>(c0 :: 'obs client) a0 pulls0 obs reward w c' rest.
          ClientNetworkEnv_step loads names c0 a0 pulls0 =
            Some (Inr ((obs, reward, False, w), c', rest)) \<longrightarrow> w = None)"
proof (intro conjI allI impI)
  from over have "game_is_terminal c = Inr True"
    by (simp add: game_is_terminal_def)
  with live show "ClientNetworkEnv_step loads names c a pulls =
           Some (Inr ((observations_of names (player c), reward_from_last_turn (player c),
                       True, Some w0),
                      c\<lparr>player := (player c)\<lparr>acknowledges_game_over := True\<rparr>,
                        pushed := pushed c @ [(player c)\<lparr>acknowledges_game_over := True\<rparr>]\<rparr>,
                      pulls))"
    by (simp add: ClientNetworkEnv_step_def client_app_step_def
        report_step_eq [OF over(1)] over(2) winners0)
next
  fix c0 :: "'obs client" and a0 pulls0 obs reward w c' rest
  assume "ClientNetworkEnv_step loads names c0 a0 pulls0 =
            Some (Inr ((obs, reward, False, w), c', rest))"
  then show "w = None"
    by (rule step_winners_None) simp
qed

theorem step_after_terminal_witness:
  "\<exists>obs c'. ClientNetworkEnv_step example_loads [''x''] (example_client True) ''go'' example_pulls
               = Some (Inr ((obs, 0, True, Some [7]), c', example_pulls))
     \<and> obs ''x'' = Some 0
     \<and> action (player c') = []
     \<and> \<not> ready_for_action_to_be_taken (player c')
     \<and> map acknowledges_game_over (pushed c') = [True]"
proof -
  have over: "server_states (example_client True) = example_state True # []"
    "terminal (example_state True)"
    by (simp_all add: example_client_def example_state_def)
  have w: "example_loads (winners (example_state True)) = Inr [7]"
    by (simp add: example_loads_def example_state_def)
  from step_after_terminal [where loads = example_loads and c = "example_client True"
      and st = "example_state True" and others = "[]" and ?w0.0 = "[7]"
      and names = "[''x'']" and a = "''go''" and pulls = example_pulls,
      OF example_live [of True] over w]
  show ?thesis
    by (simp add: observations_of_def example_client_def example_player_def)
qed

subsection \<open>Closing twice\<close>

text \<open>
  C8, as amended. The first \<^verbatim>\<open>close()\<close> of an adapter whose worker is in its loop
  makes the worker delete its player record, close its end of the pipe and leave the loop.
  A second \<^verbatim>\<open>close()\<close> reaches nobody and changes nothing of that, but it is not
  silent: the send on the pipe whose other end is closed raises \<^verbatim>\<open>BrokenPipeError\<close>.
\<close>

theorem second_close_raises:
  assumes "running c" "\<not> remote_closed c"
  shows "ClientNetworkEnv_close c =
           (None, c\<lparr>player_deleted := True, remote_closed := True, running := False\<rparr>)
     \<and> ClientNetworkEnv_close (snd (ClientNetworkEnv_close c)) =
           (Some BrokenPipeError, snd (ClientNetworkEnv_close c))"
  using assms by (simp add: ClientNetworkEnv_close_def client_app_close_def)

theorem second_close_raises_witness:
  "fst (ClientNetworkEnv_close (example_client False)) = None
   \<and> player_deleted (snd (ClientNetworkEnv_close (example_client False)))
   \<and> snd (ClientNetworkEnv_close (snd (ClientNetworkEnv_close (example_client False))))
       = snd (ClientNetworkEnv_close (example_client False))"
proof -
  from second_close_raises [OF example_live [of False]]
  have first: "ClientNetworkEnv_close (example_client False) =
      (None, (example_client False)
                \<lparr>player_deleted := True, remote_closed := True, running := False\<rparr>)"
    and second: "ClientNetworkEnv_close (snd (ClientNetworkEnv_close (example_client False))) =
      (Some BrokenPipeError, snd (ClientNetworkEnv_close (example_client False)))"
    by blast+
  have "fst (ClientNetworkEnv_close (example_client False)) = None"
    and "player_deleted (snd (ClientNetworkEnv_close (example_client False)))"
    by (simp_all add: first)
  moreover have "snd (ClientNetworkEnv_close (snd (ClientNetworkEnv_close (example_client False))))
       = snd (ClientNetworkEnv_close (example_client False))"
    by (simp only: second snd_conv)
  ultimately show ?thesis
    by blast
qed

text \<open>The claim as stated fails: the second \<^verbatim>\<open>close()\<close> raises.\<close>

theorem second_close_counterexample:
  "fst (ClientNetworkEnv_close (snd (ClientNetworkEnv_close (example_client False))))
     = Some BrokenPipeError"
  by (simp add: ClientNetworkEnv_close_def client_app_close_def example_client_def)

end
